theory Spec2Isabelle
  imports Complex_Main "HOL-Library.Multiset" "HOL-Library.Code_Target_Numeral"
begin

section \<open>The series multiplier of piranha (series\_multiplier.hpp)\<close>

text \<open>
  A shallow embedding of \<^verbatim>\<open>piranha::series_multiplier\<close>.  Sizes (\<^verbatim>\<open>size_type\<close>,
  \<^verbatim>\<open>bucket_size_type\<close>) are natural numbers, with the largest representable value a
  parameter where the source tests against it; \<^verbatim>\<open>piranha::integer\<close> is \<^typ>\<open>int\<close>.
  An exception is a value of type \<open>error\<close>, and a function that can throw returns
  \<open>error + 'a\<close>.
\<close>

subsection \<open>Exceptions\<close>

datatype error =
    InvalidArgument string
  | OverflowError
  | ZeroDivisionError
  | BadNumericCast
  | AssertionFailed
  | Foreign nat

text \<open>
  \<open>Foreign n\<close> stands for an exception raised by a collaborator of the multiplier (term
  multiplication, series insertion, rehashing); \<open>n\<close> tells such exceptions apart.
\<close>

subsection \<open>Collaborators: truncator, hash set, series, term arithmetic\<close>

text \<open>
  The truncator (truncator.hpp is not part of the sources at hand) is used through
  \<^verbatim>\<open>is_active()\<close>, \<^verbatim>\<open>compare_terms()\<close>, \<^verbatim>\<open>skip()\<close>, \<^verbatim>\<open>filter()\<close> and the two
  compile-time traits \<^verbatim>\<open>is_skipping\<close> and \<^verbatim>\<open>is_filtering\<close>.  Its predicates are taken
  as total.
\<close>

record 't truncator =
  is_active :: bool
  is_skipping :: bool
  is_filtering :: bool
  compare_terms :: "'t \<Rightarrow> 't \<Rightarrow> bool"
  trunc_skip :: "'t \<Rightarrow> 't \<Rightarrow> bool"
  trunc_filter :: "'t \<Rightarrow> bool"

text \<open>
  Modelled from the spec: the hash accumulator (hash\_set.hpp is not part of the sources at
  hand).  Only what the multiplier observes is kept: the stored terms, the bucket count
  and the element counter that \<^verbatim>\<open>size()\<close> reports (the low-level insertions of the
  final merge leave the counter alone, so it is a field of its own).  A
  default-constructed or cleared container has no terms and no buckets, as the container
  tests check.
\<close>

record 't hash_set =
  elems :: "'t list"
  n_buckets :: nat
  n_elements :: nat

definition hs_empty :: "'t hash_set" where
  "hs_empty = \<lparr>elems = [], n_buckets = 0, n_elements = 0\<rparr>"

definition hs_size :: "'t hash_set \<Rightarrow> nat" where
  "hs_size h = n_elements h"

definition bucket_count :: "'t hash_set \<Rightarrow> nat" where
  "bucket_count h = n_buckets h"

definition hs_clear :: "'t hash_set \<Rightarrow> 't hash_set" where
  "hs_clear h = hs_empty"

type_synonym symbol_set = "string list"

record 't series =
  m_symbol_set :: symbol_set
  m_container :: "'t hash_set"

text \<open>\<^verbatim>\<open>return_type{}\<close>: the default-constructed series.\<close>

definition series_default :: "'t series" where
  "series_default = \<lparr>m_symbol_set = [], m_container = hs_empty\<rparr>"

definition series_size :: "'t series \<Rightarrow> nat" where
  "series_size s = hs_size (m_container s)"

definition series_empty :: "'t series \<Rightarrow> bool" where
  "series_empty s \<longleftrightarrow> series_size s = 0"

definition clear_container :: "'t series \<Rightarrow> 't series" where
  "clear_container s = s\<lparr>m_container := hs_clear (m_container s)\<rparr>"

text \<open>
  The operations whose code lies outside series\_multiplier.hpp are parameters:
  \<^verbatim>\<open>term_type1::multiply\<close> (its result is one term or a tuple of terms, so a first term
  and the list of the others), \<^verbatim>\<open>series::insert\<close> (it reads the symbol set of the
  series and changes the container), \<^verbatim>\<open>hash_set::rehash\<close> and the value of
  \<^verbatim>\<open>hash_set::max_load_factor()\<close>.  Each of the three operations can throw.  The
  source computes with the load factor in floating point; the model computes with it as
  a real number, so the rounding of the floating-point operations is not modelled.

  The final merge works on the buckets of the container directly.  \<open>hs_bucket\<close> is
  \<^verbatim>\<open>hash_set::_bucket\<close>, the bucket of a term in a container (it throws on a container
  without buckets).  \<open>merge_entry\<close> is what a merge worker does with one term and its
  bucket: it looks the term up, inserts it when it is new, and otherwise adds the
  coefficients and erases the result when it has become ignorable.  It returns the
  container as it has left it and either the exception raised or the change of the number
  of terms.
\<close>

record 't collab =
  term_multiply :: "'t \<Rightarrow> 't \<Rightarrow> symbol_set \<Rightarrow> error + ('t \<times> 't list)"
  series_insert :: "'t \<Rightarrow> symbol_set \<Rightarrow> 't hash_set \<Rightarrow> error + 't hash_set"
  hs_rehash :: "nat \<Rightarrow> 't hash_set \<Rightarrow> error + 't hash_set"
  max_load_factor :: real
  hs_bucket :: "'t hash_set \<Rightarrow> 't \<Rightarrow> error + nat"
  merge_entry :: "symbol_set \<Rightarrow> nat \<Rightarrow> 't \<Rightarrow> 't hash_set \<Rightarrow> 't hash_set \<times> (error + int)"

definition insert_into :: "'t collab \<Rightarrow> 't \<Rightarrow> 't series \<Rightarrow> error + 't series" where
  "insert_into K t r =
     (case series_insert K t (m_symbol_set r) (m_container r) of
        Inl e \<Rightarrow> Inl e
      | Inr h \<Rightarrow> Inr (r\<lparr>m_container := h\<rparr>))"

subsection \<open>The default multiplication functor\<close>

text \<open>
  The functor keeps the two arrays of term pointers (here the pointed-to terms), the
  truncator and its \<^verbatim>\<open>IsActive\<close> template flag.  The return series it refers to is passed
  explicitly to the operations that change it.
\<close>

record 't default_functor =
  IsActive :: bool
  m_ptr1 :: "'t list"
  m_ptr2 :: "'t list"
  m_trunc :: "'t truncator"

text \<open>
  \<^verbatim>\<open>std::sort\<close> with the truncator's comparison: any sorted permutation is allowed by
  the standard; the model takes the one insertion sort gives.
\<close>

fun place_by :: "('a \<Rightarrow> 'a \<Rightarrow> bool) \<Rightarrow> 'a \<Rightarrow> 'a list \<Rightarrow> 'a list" where
  "place_by lt x [] = [x]"
| "place_by lt x (y # ys) = (if lt x y then x # y # ys else y # place_by lt x ys)"

definition std_sort :: "('a \<Rightarrow> 'a \<Rightarrow> bool) \<Rightarrow> 'a list \<Rightarrow> 'a list" where
  "std_sort lt xs = foldr (place_by lt) xs []"

definition sort_for_skip :: "bool \<Rightarrow> 't truncator \<Rightarrow> 't list \<Rightarrow> 't list" where
  "sort_for_skip flag trunc ptr = (if flag then std_sort (compare_terms trunc) ptr else ptr)"

text \<open>The constructor of \<^verbatim>\<open>default_functor<IsActive>\<close>.\<close>

definition make_functor ::
  "bool \<Rightarrow> 't list \<Rightarrow> 't list \<Rightarrow> 't truncator \<Rightarrow> error + 't default_functor" where
  "make_functor act ptr1 ptr2 trunc =
     (if act \<noteq> is_active trunc
      then Inl (InvalidArgument ''inconsistent activity flags for truncator'')
      else Inr \<lparr>IsActive = act,
                m_ptr1 = sort_for_skip (act \<and> is_skipping trunc) trunc ptr1,
                m_ptr2 = sort_for_skip (act \<and> is_skipping trunc) trunc ptr2,
                m_trunc = trunc\<rparr>)"

definition m_s1 :: "'t default_functor \<Rightarrow> nat" where
  "m_s1 f = length (m_ptr1 f)"

definition m_s2 :: "'t default_functor \<Rightarrow> nat" where
  "m_s2 f = length (m_ptr2 f)"

text \<open>\<^verbatim>\<open>skip(i,j)\<close> and \<^verbatim>\<open>filter(t)\<close>.\<close>

definition functor_skip :: "'t default_functor \<Rightarrow> nat \<Rightarrow> nat \<Rightarrow> bool" where
  "functor_skip f i j =
     (if IsActive f \<and> is_skipping (m_trunc f)
      then trunc_skip (m_trunc f) (m_ptr1 f ! i) (m_ptr2 f ! j)
      else False)"

definition functor_filter :: "'t default_functor \<Rightarrow> 't \<Rightarrow> bool" where
  "functor_filter f t =
     (if IsActive f \<and> is_filtering (m_trunc f) then trunc_filter (m_trunc f) t else False)"

text \<open>
  \<^verbatim>\<open>operator()(i,j)\<close>: the product of the \<open>i\<close>-th and \<open>j\<close>-th terms, the value left in
  \<^verbatim>\<open>m_tmp\<close>.  The source asserts that both indices are in range.
\<close>

definition functor_call ::
  "'t collab \<Rightarrow> 't default_functor \<Rightarrow> nat \<Rightarrow> nat \<Rightarrow> symbol_set \<Rightarrow> error + ('t \<times> 't list)" where
  "functor_call K f i j syms =
     (if i < m_s1 f \<and> j < m_s2 f
      then term_multiply K (m_ptr1 f ! i) (m_ptr2 f ! j) syms
      else Inl AssertionFailed)"

text \<open>
  \<^verbatim>\<open>insert<CheckFilter>()\<close>: every term of \<^verbatim>\<open>m_tmp\<close> goes into the return series, except
  that with a non-skipping truncator and \<^verbatim>\<open>CheckFilter\<close> a filtered term is dropped.
\<close>

definition insert_one ::
  "'t collab \<Rightarrow> 't default_functor \<Rightarrow> bool \<Rightarrow> 't \<Rightarrow> 't series \<Rightarrow> error + 't series" where
  "insert_one K f check t r =
     (if \<not> is_skipping (m_trunc f) \<and> check \<and> functor_filter f t
      then Inr r
      else insert_into K t r)"

fun insert_terms ::
  "'t collab \<Rightarrow> 't default_functor \<Rightarrow> bool \<Rightarrow> 't list \<Rightarrow> 't series \<Rightarrow> error + 't series" where
  "insert_terms K f check [] r = Inr r"
| "insert_terms K f check (t # ts) r =
     (case insert_one K f check t r of
        Inl e \<Rightarrow> Inl e
      | Inr r' \<Rightarrow> insert_terms K f check ts r')"

definition functor_insert ::
  "'t collab \<Rightarrow> 't default_functor \<Rightarrow> bool \<Rightarrow> ('t \<times> 't list) \<Rightarrow> 't series \<Rightarrow> error + 't series" where
  "functor_insert K f check tmp r = insert_terms K f check (fst tmp # snd tmp) r"

text \<open>The body shared by all loops of the tiler: \<^verbatim>\<open>f(i,j); f.insert();\<close>\<close>

definition multiply_insert ::
  "'t collab \<Rightarrow> 't default_functor \<Rightarrow> nat \<Rightarrow> nat \<Rightarrow> 't series \<Rightarrow> error + 't series" where
  "multiply_insert K f i j r =
     (case functor_call K f i j (m_symbol_set r) of
        Inl e \<Rightarrow> Inl e
      | Inr tmp \<Rightarrow> functor_insert K f True tmp r)"

subsection \<open>The block tiler\<close>

text \<open>A \<^verbatim>\<open>for\<close> loop over the given indices whose body can throw.\<close>

fun for_loop :: "'i list \<Rightarrow> ('i \<Rightarrow> 's \<Rightarrow> error + 's) \<Rightarrow> 's \<Rightarrow> error + 's" where
  "for_loop [] body s = Inr s"
| "for_loop (x # xs) body s =
     (case body x s of Inl e \<Rightarrow> Inl e | Inr s' \<Rightarrow> for_loop xs body s')"

text \<open>
  The innermost loop over \<open>j\<close> for a fixed row \<open>i\<close>: it leaves at the first \<open>j\<close> with
  \<^verbatim>\<open>f.skip(i,j)\<close>.
\<close>

fun row_loop ::
  "'t collab \<Rightarrow> 't default_functor \<Rightarrow> nat \<Rightarrow> nat list \<Rightarrow> 't series \<Rightarrow> error + 't series" where
  "row_loop K f i [] r = Inr r"
| "row_loop K f i (j # js) r =
     (if functor_skip f i j then Inr r
      else case multiply_insert K f i j r of
             Inl e \<Rightarrow> Inl e
           | Inr r' \<Rightarrow> row_loop K f i js r')"

definition blocked_multiplication ::
  "'t collab \<Rightarrow> 't default_functor \<Rightarrow> nat \<Rightarrow> nat \<Rightarrow> 't series \<Rightarrow> error + 't series" where
  "blocked_multiplication K f size1 size2 retval =
     (let bsize1 = 256; nblocks1 = size1 div bsize1;
          bsize2 = bsize1; nblocks2 = size2 div bsize2;
          i_ir_start = nblocks1 * bsize1; i_ir_end = size1;
          j_ir_start = nblocks2 * bsize2; j_ir_end = size2
      in
      case for_loop [0..<nblocks1] (\<lambda>n1 r.
             let i_start = n1 * bsize1; i_end = i_start + bsize1 in
             case for_loop [0..<nblocks2] (\<lambda>n2 r.
                    let j_start = n2 * bsize2; j_end = j_start + bsize2 in
                    for_loop [i_start..<i_end] (\<lambda>i r. row_loop K f i [j_start..<j_end] r) r) r
             of Inl e \<Rightarrow> Inl e
              | Inr r' \<Rightarrow>
                  for_loop [i_start..<i_end] (\<lambda>i r. row_loop K f i [j_ir_start..<j_ir_end] r) r')
             retval
      of Inl e \<Rightarrow> Inl e
       | Inr r1 \<Rightarrow>
          (case for_loop [0..<nblocks2] (\<lambda>n2 r.
                    let j_start = n2 * bsize2; j_end = j_start + bsize2 in
                    for_loop [i_ir_start..<i_ir_end] (\<lambda>i r. row_loop K f i [j_start..<j_end] r) r)
                  r1
           of Inl e \<Rightarrow> Inl e
            | Inr r2 \<Rightarrow>
                for_loop [i_ir_start..<i_ir_end]
                  (\<lambda>i r. row_loop K f i [j_ir_start..<j_ir_end] r) r2))"

text \<open>
  The loop the tiler is compared with, written from the specification: every pair
  \<open>(i,j)\<close> with \<open>i < size1\<close> and \<open>j < size2\<close> is tested with \<^verbatim>\<open>skip\<close>, and exactly the
  pairs that are not skipped are multiplied and inserted.
\<close>

definition naive_multiplication ::
  "'t collab \<Rightarrow> 't default_functor \<Rightarrow> nat \<Rightarrow> nat \<Rightarrow> 't series \<Rightarrow> error + 't series" where
  "naive_multiplication K f size1 size2 retval =
     for_loop [0..<size1] (\<lambda>i r.
       for_loop [0..<size2] (\<lambda>j r.
         if functor_skip f i j then Inr r else multiply_insert K f i j r) r) retval"

text \<open>
  \<^verbatim>\<open>skip(i,j)\<close> is monotone in \<open>j\<close> for each row \<open>i\<close>: once a pair of a row is skipped,
  the later pairs of the row are skipped too.
\<close>

definition skip_monotone :: "'t default_functor \<Rightarrow> nat \<Rightarrow> nat \<Rightarrow> bool" where
  "skip_monotone f size1 size2 \<longleftrightarrow>
     (\<forall>i < size1. \<forall>j < size2. \<forall>j' < size2. j \<le> j' \<longrightarrow> functor_skip f i j \<longrightarrow> functor_skip f i j')"

text \<open>
  A series insertion that only records: the stored terms are then the terms handed to
  \<^verbatim>\<open>insert\<close>, in order.
\<close>

definition record_insert :: "'t \<Rightarrow> symbol_set \<Rightarrow> 't hash_set \<Rightarrow> error + 't hash_set" where
  "record_insert t syms h = Inr (h\<lparr>elems := elems h @ [t], n_elements := n_elements h + 1\<rparr>)"

definition accumulated :: "error + 't series \<Rightarrow> 't multiset option" where
  "accumulated res = (case res of Inl e \<Rightarrow> None | Inr r \<Rightarrow> Some (mset (elems (m_container r))))"

subsection \<open>The pairs visited by the loops\<close>

text \<open>
  The loops of the tiler do not look at the series they fill, so each of them is the
  sequence of index pairs it visits, with the loop body run on every pair in turn.  The
  definitions below name these sequences.
\<close>

definition visit :: "'t collab \<Rightarrow> 't default_functor \<Rightarrow> nat \<times> nat \<Rightarrow> 't series \<Rightarrow> error + 't series" where
  "visit K f p r = multiply_insert K f (fst p) (snd p) r"

definition row_taken :: "'t default_functor \<Rightarrow> nat \<Rightarrow> nat list \<Rightarrow> (nat \<times> nat) list" where
  "row_taken f i js = map (Pair i) (takeWhile (\<lambda>j. \<not> functor_skip f i j) js)"

definition row_kept :: "'t default_functor \<Rightarrow> nat \<Rightarrow> nat list \<Rightarrow> (nat \<times> nat) list" where
  "row_kept f i js = map (Pair i) (filter (\<lambda>j. \<not> functor_skip f i j) js)"

definition rect_taken :: "'t default_functor \<Rightarrow> nat list \<Rightarrow> nat list \<Rightarrow> (nat \<times> nat) list" where
  "rect_taken f is js = concat (map (\<lambda>i. row_taken f i js) is)"

definition rect_kept :: "'t default_functor \<Rightarrow> nat list \<Rightarrow> nat list \<Rightarrow> (nat \<times> nat) list" where
  "rect_kept f is js = concat (map (\<lambda>i. row_kept f i js) is)"

definition tile :: "nat \<Rightarrow> nat list" where
  "tile n = [n * 256..<n * 256 + 256]"

definition blocked_pairs :: "'t default_functor \<Rightarrow> nat \<Rightarrow> nat \<Rightarrow> (nat \<times> nat) list" where
  "blocked_pairs f size1 size2 =
     concat (map (\<lambda>n1. concat (map (\<lambda>n2. rect_taken f (tile n1) (tile n2)) [0..<size2 div 256])
                        @ rect_taken f (tile n1) [size2 div 256 * 256..<size2])
                 [0..<size1 div 256])
     @ concat (map (\<lambda>n2. rect_taken f [size1 div 256 * 256..<size1] (tile n2)) [0..<size2 div 256])
     @ rect_taken f [size1 div 256 * 256..<size1] [size2 div 256 * 256..<size2]"

definition naive_pairs :: "'t default_functor \<Rightarrow> nat \<Rightarrow> nat \<Rightarrow> (nat \<times> nat) list" where
  "naive_pairs f size1 size2 = rect_kept f [0..<size1] [0..<size2]"

definition contrib ::
  "'t collab \<Rightarrow> 't default_functor \<Rightarrow> symbol_set \<Rightarrow> nat \<times> nat \<Rightarrow> error + 't list" where
  "contrib K f syms p =
     (case functor_call K f (fst p) (snd p) syms of
        Inl e \<Rightarrow> Inl e
      | Inr tmp \<Rightarrow> Inr (filter (\<lambda>t. \<not> (\<not> is_skipping (m_trunc f) \<and> functor_filter f t))
                         (fst tmp # snd tmp)))"

definition add_terms :: "'t list \<Rightarrow> 't series \<Rightarrow> 't series" where
  "add_terms ts r =
     r\<lparr>m_container := (m_container r)\<lparr>elems := elems (m_container r) @ ts,
                                        n_elements := n_elements (m_container r) + length ts\<rparr>\<rparr>"

subsection \<open>Platform and arbitrary-precision integers\<close>

text \<open>
  What the standard library and the runtime fix: the largest value of the size type
  (\<^verbatim>\<open>boost::integer_traits<Size>::const_max\<close>), the state of a default-constructed
  \<^verbatim>\<open>std::mt19937\<close> and the effect of \<^verbatim>\<open>std::random_shuffle\<close> with the generator built
  on that engine (both implementation-defined), the configured number of threads, the
  identifiers of the main and of the calling thread, and the times at which the workers
  of a thread group record an exception.
\<close>

record 'g platform =
  size_max :: nat
  mt19937_default :: 'g
  random_shuffle :: "'g \<Rightarrow> nat list \<Rightarrow> nat list \<times> 'g"
  settings_n_threads :: nat
  main_thread_id :: nat
  this_thread_id :: nat
  capture_time :: "nat \<Rightarrow> nat \<Rightarrow> nat"

text \<open>
  Modelled from the spec: \<^verbatim>\<open>piranha::integer\<close>, the arbitrary-precision integer
  (integer.hpp is not part of the sources at hand).  Division truncates and raises
  \<^verbatim>\<open>zero_division_error\<close> on a zero divisor, the error the tests expect of a division by
  zero; \<^verbatim>\<open>sqrt()\<close> is the floor of the square root; the conversion to an unsigned size
  raises \<^verbatim>\<open>std::overflow_error\<close> when the value does not fit, as the documentation of
  \<^verbatim>\<open>execute\<close> says of the cast operator.
\<close>

definition integer_div :: "int \<Rightarrow> int \<Rightarrow> error + int" where
  "integer_div a b =
     (if b = 0 then Inl ZeroDivisionError else Inr (sgn a * sgn b * (\<bar>a\<bar> div \<bar>b\<bar>)))"

function sqrt_search :: "nat \<Rightarrow> nat \<Rightarrow> nat" where
  "sqrt_search n k = (if (k + 1) * (k + 1) \<le> n then sqrt_search n (k + 1) else k)"
  by pat_completeness auto
termination
proof (relation "measure (\<lambda>(n, k). n - k)")
  show "wf (measure (\<lambda>(n, k). n - k))" by simp
next
  fix n k :: nat
  assume a: "(k + 1) * (k + 1) \<le> n"
  have "k + 1 \<le> (k + 1) * (k + 1)" by simp
  with a have "k < n" by linarith
  then show "((n, k + 1), (n, k)) \<in> measure (\<lambda>(n, k). n - k)" by simp
qed

declare sqrt_search.simps [simp del]

definition integer_sqrt :: "int \<Rightarrow> int" where
  "integer_sqrt z = int (sqrt_search (nat z) 0)"

definition integer_to_size :: "'g platform \<Rightarrow> int \<Rightarrow> error + nat" where
  "integer_to_size P z = (if z < 0 \<or> int (size_max P) < z then Inl OverflowError else Inr (nat z))"

subsection \<open>The density estimator\<close>

text \<open>\<^verbatim>\<open>result_size\<close> and \<^verbatim>\<open>count_n_filtered\<close> on the value of \<^verbatim>\<open>m_tmp\<close>.\<close>

definition result_size :: "('t \<times> 't list) \<Rightarrow> nat" where
  "result_size tmp = Suc (length (snd tmp))"

definition count_n_filtered :: "'t default_functor \<Rightarrow> ('t \<times> 't list) \<Rightarrow> nat" where
  "count_n_filtered f tmp = length (filter (functor_filter f) (fst tmp # snd tmp))"

text \<open>
  \<^verbatim>\<open>std::rotate(v.begin(), v.end() - 1, v.end())\<close>: the last element moves to the front.
\<close>

definition rotate_last :: "'a list \<Rightarrow> 'a list" where
  "rotate_last xs = (if xs = [] then [] else last xs # butlast xs)"

text \<open>
  The variables of the \<^verbatim>\<open>while (count < max_M)\<close> loop of one trial; the two iterators are
  positions in the index vectors.
\<close>

record 't sweep_state =
  sw_count :: nat
  sw_filtered :: nat
  sw_it1 :: nat
  sw_it2 :: nat
  sw_idx2 :: "nat list"
  sw_retval :: "'t series"

text \<open>The wrap-around of the two iterators at the head of the loop body.\<close>

definition wrap_iterators :: "nat list \<Rightarrow> 't sweep_state \<Rightarrow> 't sweep_state" where
  "wrap_iterators v_idx1 s =
     (let s1 = (if sw_it1 s = length v_idx1
                then s\<lparr>sw_it1 := 0, sw_idx2 := rotate_last (sw_idx2 s), sw_it2 := 0\<rparr>
                else s)
      in if sw_it2 s1 = length (sw_idx2 s1) then s1\<lparr>sw_it2 := 0\<rparr> else s1)"

function sweep ::
  "'g platform \<Rightarrow> 't collab \<Rightarrow> 't default_functor \<Rightarrow> nat \<Rightarrow> nat list \<Rightarrow> 't sweep_state
     \<Rightarrow> error + 't sweep_state" where
  "sweep P K f max_M v_idx1 s =
     (if sw_count s < max_M then
        (let s' = wrap_iterators v_idx1 s in
         case functor_call K f (v_idx1 ! sw_it1 s') (sw_idx2 s' ! sw_it2 s')
                (m_symbol_set (sw_retval s')) of
           Inl e \<Rightarrow> Inl e
         | Inr tmp \<Rightarrow>
            (case functor_insert K f False tmp (sw_retval s') of
               Inl e \<Rightarrow> Inl e
             | Inr r \<Rightarrow>
                 if size_max P < result_size tmp \<or> size_max P - result_size tmp < sw_count s'
                 then Inl OverflowError
                 else if series_size r \<noteq> sw_count s' + result_size tmp
                 then Inr (s'\<lparr>sw_retval := r\<rparr>)
                 else if size_max P < count_n_filtered f tmp
                         \<or> size_max P - count_n_filtered f tmp < sw_filtered s'
                 then Inl OverflowError
                 else sweep P K f max_M v_idx1
                        (s'\<lparr>sw_retval := r,
                            sw_filtered := sw_filtered s' + count_n_filtered f tmp,
                            sw_count := sw_count s' + result_size tmp,
                            sw_it1 := sw_it1 s' + 1,
                            sw_it2 := sw_it2 s' + 1\<rparr>)))
      else Inr s)"
  by pat_completeness auto
termination
  by (relation "measure (\<lambda>(P, K, f, max_M, v_idx1, s). max_M - sw_count s)")
     (auto simp: wrap_iterators_def result_size_def Let_def)

declare sweep.simps [simp del]

text \<open>The variables that live across the trials.\<close>

record ('t, 'g) trial_state =
  ts_idx1 :: "nat list"
  ts_idx2 :: "nat list"
  ts_engine :: 'g
  ts_total :: int
  ts_filtered :: int
  ts_retval :: "'t series"

text \<open>
  The first half of a trial: both index vectors are shuffled and the sweep runs from
  fresh counters.  The result is the shuffled first vector, the engine and the final
  state of the sweep.
\<close>

definition trial_sweep ::
  "'g platform \<Rightarrow> 't collab \<Rightarrow> 't default_functor \<Rightarrow> nat \<Rightarrow> ('t, 'g) trial_state
     \<Rightarrow> error + (nat list \<times> 'g \<times> 't sweep_state)" where
  "trial_sweep P K f max_M s =
     (let (v1, g1) = random_shuffle P (ts_engine s) (ts_idx1 s);
          (v2, g2) = random_shuffle P g1 (ts_idx2 s)
      in case sweep P K f max_M v1
                \<lparr>sw_count = 0, sw_filtered = 0, sw_it1 = 0, sw_it2 = 0,
                 sw_idx2 = v2, sw_retval = ts_retval s\<rparr> of
           Inl e \<Rightarrow> Inl e
         | Inr w \<Rightarrow> Inr (v1, g2, w))"

text \<open>The second half: the counters are added up and the scratch series is reset.\<close>

definition trial_finish ::
  "('t, 'g) trial_state \<Rightarrow> (nat list \<times> 'g \<times> 't sweep_state) \<Rightarrow> ('t, 'g) trial_state" where
  "trial_finish s res =
     (case res of (v1, g2, w) \<Rightarrow>
        \<lparr>ts_idx1 = v1, ts_idx2 = sw_idx2 w, ts_engine = g2,
         ts_total = ts_total s + int (sw_count w),
         ts_filtered = ts_filtered s + int (sw_filtered w),
         ts_retval = clear_container (sw_retval w)\<rparr>)"

definition trial ::
  "'g platform \<Rightarrow> 't collab \<Rightarrow> 't default_functor \<Rightarrow> nat \<Rightarrow> ('t, 'g) trial_state
     \<Rightarrow> error + ('t, 'g) trial_state" where
  "trial P K f max_M s =
     (case trial_sweep P K f max_M s of
        Inl e \<Rightarrow> Inl e
      | Inr res \<Rightarrow> Inr (trial_finish s res))"

text \<open>The variables of the estimator before the first trial.\<close>

definition estimator_init :: "'g platform \<Rightarrow> nat \<Rightarrow> nat \<Rightarrow> 't series \<Rightarrow> ('t, 'g) trial_state" where
  "estimator_init P size1 size2 retval =
     \<lparr>ts_idx1 = [0..<size1], ts_idx2 = [0..<size2], ts_engine = mt19937_default P,
      ts_total = 0, ts_filtered = 0, ts_retval = retval\<rparr>"

definition estimate_final_series_size ::
  "'g platform \<Rightarrow> 't collab \<Rightarrow> 't default_functor \<Rightarrow> nat \<Rightarrow> nat \<Rightarrow> 't series
     \<Rightarrow> error + (nat \<times> 't series)" where
  "estimate_final_series_size P K f size1 size2 retval =
     (if size1 = 0 \<or> size2 = 0 then Inr (0, retval)
      else
        let ntrials = 10; multiplier = 4 in
        case integer_div (int size1 * int size2) multiplier of
          Inl e \<Rightarrow> Inl e
        | Inr q \<Rightarrow>
        (case integer_to_size P (integer_sqrt q) of
          Inl e \<Rightarrow> Inl e
        | Inr max_M \<Rightarrow>
        (case for_loop [0..<ntrials] (\<lambda>n. trial P K f max_M)
                (estimator_init P size1 size2 retval) of
          Inl e \<Rightarrow> Inl e
        | Inr s \<Rightarrow>
        (let total = ts_total s; filtered = ts_filtered s in
         case integer_div total (int ntrials) of
           Inl e \<Rightarrow> Inl e
         | Inr mean \<Rightarrow>
         (case integer_div (mean * mean * multiplier * (total - filtered)) total of
            Inl e \<Rightarrow> Inl e
          | Inr M \<Rightarrow>
          (case integer_to_size P M of
             Inl e \<Rightarrow> Inl e
           | Inr n \<Rightarrow> Inr (n, ts_retval s)))))))"

subsection \<open>Pre-sizing the return series\<close>

text \<open>
  \<^verbatim>\<open>boost::numeric_cast<bucket_size_type>(std::ceil(size / max_load_factor()))\<close>: the
  cast throws when the value is not a size.
\<close>

definition ceil_over_load :: "'g platform \<Rightarrow> 't collab \<Rightarrow> nat \<Rightarrow> error + nat" where
  "ceil_over_load P K sz =
     (if max_load_factor K \<le> 0 then Inl BadNumericCast
      else let c = \<lceil>real sz / max_load_factor K\<rceil>
           in if int (size_max P) < c then Inl BadNumericCast else Inr (nat c))"

text \<open>
  The \<^verbatim>\<open>try\<close> block of \<^verbatim>\<open>rehasher\<close> with its handler: the estimate is computed and the
  container rehashed; any exception is swallowed, the container is cleared and no
  estimate is reported.
\<close>

definition presize ::
  "'g platform \<Rightarrow> 't collab \<Rightarrow> 't default_functor \<Rightarrow> 't series \<Rightarrow> nat \<Rightarrow> nat
     \<Rightarrow> (bool \<times> nat) \<times> 't series" where
  "presize P K f r s1 s2 =
     (case estimate_final_series_size P K f s1 s2 r of
        Inl e \<Rightarrow> ((False, 0), clear_container r)
      | Inr (sz, r1) \<Rightarrow>
          (case ceil_over_load P K sz of
             Inl e \<Rightarrow> ((False, 0), clear_container r1)
           | Inr n \<Rightarrow>
               (case hs_rehash K n (m_container r1) of
                  Inl e \<Rightarrow> ((False, 0), clear_container r1)
                | Inr h \<Rightarrow> ((True, sz), r1\<lparr>m_container := h\<rparr>))))"

definition rehasher ::
  "'g platform \<Rightarrow> 't collab \<Rightarrow> 't default_functor \<Rightarrow> 't series \<Rightarrow> nat \<Rightarrow> nat
     \<Rightarrow> (bool \<times> nat) \<times> 't series" where
  "rehasher P K f r s1 s2 =
     (if s2 \<noteq> 0 \<and> 100000 div s2 \<le> s1 then presize P K f r s1 s2 else ((False, 0), r))"

subsection \<open>The multiplier and its driver\<close>

record 't series_multiplier =
  sm_s1 :: "'t series"
  sm_s2 :: "'t series"
  m_v1 :: "'t list"
  m_v2 :: "'t list"

text \<open>The constructor of \<^verbatim>\<open>series_multiplier\<close>.\<close>

definition make_multiplier :: "'t series \<Rightarrow> 't series \<Rightarrow> error + 't series_multiplier" where
  "make_multiplier s1 s2 =
     (if m_symbol_set s1 \<noteq> m_symbol_set s2
      then Inl (InvalidArgument ''incompatible arguments sets'')
      else if series_empty s1 \<or> series_empty s2
      then Inr \<lparr>sm_s1 = s1, sm_s2 = s2, m_v1 = [], m_v2 = []\<rparr>
      else Inr \<lparr>sm_s1 = s1, sm_s2 = s2,
                m_v1 = elems (m_container s1), m_v2 = elems (m_container s2)\<rparr>)"

text \<open>
  The number of threads (the lines of \<^verbatim>\<open>execute\<close> from the read of the setting to the
  clamp by the size of the first operand).
\<close>

definition thread_heuristic :: "'g platform \<Rightarrow> nat \<Rightarrow> nat \<Rightarrow> error + nat" where
  "thread_heuristic P size1 size2 =
     (let n_threads = settings_n_threads P in
      case (if n_threads \<noteq> 1 then
              (let min_work = 100000; work_size = int size1 * int size2 in
               case integer_div work_size (int n_threads) of
                 Inl e \<Rightarrow> Inl e
               | Inr per_thread \<Rightarrow>
                   if min_work \<le> per_thread then Inr n_threads
                   else (case integer_div work_size min_work of
                           Inl e \<Rightarrow> Inl e
                         | Inr w \<Rightarrow> integer_to_size P (max 1 w)))
            else Inr n_threads) of
        Inl e \<Rightarrow> Inl e
      | Inr n \<Rightarrow> Inr (if size1 < n then size1 else n))"

text \<open>The number of threads as the specification words it.\<close>

definition spec_n_threads :: "nat \<Rightarrow> nat \<Rightarrow> nat \<Rightarrow> nat" where
  "spec_n_threads cfg n1 n2 =
     min n1 (if 100000 \<le> n1 * n2 div cfg then cfg else max 1 (n1 * n2 div 100000))"

definition fresh_retval :: "'t series_multiplier \<Rightarrow> 't series" where
  "fresh_retval m = series_default\<lparr>m_symbol_set := m_symbol_set (sm_s1 m)\<rparr>"

text \<open>
  What the single-threaded path and every worker do with a functor and its return
  series: \<^verbatim>\<open>rehasher\<close>, then \<^verbatim>\<open>blocked_multiplication\<close> (the tracing of the estimate is
  not modelled).
\<close>

definition run_functor ::
  "'g platform \<Rightarrow> 't collab \<Rightarrow> 't default_functor \<Rightarrow> 't series \<Rightarrow> nat \<Rightarrow> nat
     \<Rightarrow> error + 't series" where
  "run_functor P K f r s1 s2 =
     (case rehasher P K f r s1 s2 of (tmp, r1) \<Rightarrow> blocked_multiplication K f s1 s2 r1)"

definition execute_single ::
  "'g platform \<Rightarrow> 't collab \<Rightarrow> bool \<Rightarrow> 't series_multiplier \<Rightarrow> 't truncator \<Rightarrow> nat \<Rightarrow> nat
     \<Rightarrow> error + 't series" where
  "execute_single P K act m trunc size1 size2 =
     (case make_functor act (m_v1 m) (m_v2 m) trunc of
        Inl e \<Rightarrow> Inl e
      | Inr f \<Rightarrow> run_functor P K f (fresh_retval m) size1 size2)"

text \<open>
  The segment of the first array given to thread \<open>i\<close>: \<open>block_size\<close> terms, the last
  thread taking what remains.
\<close>

definition block_of :: "nat \<Rightarrow> nat \<Rightarrow> nat \<Rightarrow> 'a list \<Rightarrow> 'a list" where
  "block_of n_threads size1 i v =
     (let block_size = size1 div n_threads;
          s1 = (if i = n_threads - 1 then size1 - i * block_size else block_size)
      in take s1 (drop (i * block_size) v))"

text \<open>
  The loop that builds the functors.  A functor sorts its segment of the first array and
  the whole second array in place when the truncator skips, so the second array is
  threaded through the constructions; the result is the segments and the second array
  as the threads see them.
\<close>

fun build_functors ::
  "bool \<Rightarrow> 't truncator \<Rightarrow> 't list list \<Rightarrow> 't list \<Rightarrow> error + ('t list list \<times> 't list)" where
  "build_functors act trunc [] v2 = Inr ([], v2)"
| "build_functors act trunc (b # bs) v2 =
     (case make_functor act b v2 trunc of
        Inl e \<Rightarrow> Inl e
      | Inr f \<Rightarrow>
          (case build_functors act trunc bs (m_ptr2 f) of
             Inl e \<Rightarrow> Inl e
           | Inr (bs', v2') \<Rightarrow> Inr (m_ptr1 f # bs', v2')))"

text \<open>
  A thread group.  Every worker ends with a value or with an exception, which it appends
  to the shared vector of exceptions; the order of that vector is the order in time in
  which the failing workers reach it.
\<close>

fun failures :: "nat \<Rightarrow> (error + 'a) list \<Rightarrow> (nat \<times> error) list" where
  "failures i [] = []"
| "failures i (Inl e # rs) = (i, e) # failures (Suc i) rs"
| "failures i (Inr x # rs) = failures (Suc i) rs"

fun successes :: "(error + 'a) list \<Rightarrow> 'a list" where
  "successes [] = []"
| "successes (Inl e # rs) = successes rs"
| "successes (Inr x # rs) = x # successes rs"

definition captured :: "'g platform \<Rightarrow> nat \<Rightarrow> (error + 'a) list \<Rightarrow> error list" where
  "captured P grp results =
     map snd (std_sort (\<lambda>a b. capture_time P grp (fst a) < capture_time P grp (fst b))
                (failures 0 results))"

subsection \<open>The final merge\<close>

fun map_err :: "('a \<Rightarrow> error + 'b) \<Rightarrow> 'a list \<Rightarrow> error + 'b list" where
  "map_err g [] = Inr []"
| "map_err g (x # xs) =
     (case g x of
        Inl e \<Rightarrow> Inl e
      | Inr y \<Rightarrow> (case map_err g xs of Inl e \<Rightarrow> Inl e | Inr ys \<Rightarrow> Inr (y # ys)))"

text \<open>
  First thread group: the worker of a source series pairs each of its terms with the
  bucket the term has in the target.
\<close>

definition index_worker :: "'t collab \<Rightarrow> 't series \<Rightarrow> 't series \<Rightarrow> error + (nat \<times> 't) list" where
  "index_worker K retval r =
     map_err (\<lambda>t. case hs_bucket K (m_container retval) t of
                    Inl e \<Rightarrow> Inl e
                  | Inr b \<Rightarrow> Inr (b, t))
       (elems (m_container r))"

definition index_results ::
  "'t collab \<Rightarrow> 't series \<Rightarrow> 't series list \<Rightarrow> (error + (nat \<times> 't) list) list" where
  "index_results K retval retval_list = map (index_worker K retval) retval_list"

text \<open>
  Second thread group: worker \<open>n\<close> merges the terms whose bucket lies in its range and
  counts the change of the number of terms; it stops at its first exception.  The
  workers touch disjoint buckets; the model runs them one after the other on the
  container.
\<close>

fun merge_worker ::
  "'t collab \<Rightarrow> symbol_set \<Rightarrow> nat \<Rightarrow> nat \<Rightarrow> (nat \<times> 't) list \<Rightarrow> int \<Rightarrow> 't hash_set
     \<Rightarrow> 't hash_set \<times> (error + int)" where
  "merge_worker K syms bstart bend [] acc h = (h, Inr acc)"
| "merge_worker K syms bstart bend ((b, t) # es) acc h =
     (if bstart \<le> b \<and> b < bend
      then (case merge_entry K syms b t h of
              (h', Inl e) \<Rightarrow> (h', Inl e)
            | (h', Inr d) \<Rightarrow> merge_worker K syms bstart bend es (acc + d) h')
      else merge_worker K syms bstart bend es acc h)"

fun merge_workers ::
  "'t collab \<Rightarrow> symbol_set \<Rightarrow> nat \<Rightarrow> nat \<Rightarrow> (nat \<times> 't) list \<Rightarrow> nat list \<Rightarrow> 't hash_set
     \<Rightarrow> 't hash_set \<times> (error + int) list" where
  "merge_workers K syms n_threads bcount idx [] h = (h, [])"
| "merge_workers K syms n_threads bcount idx (n # ns) h =
     (let block_size = bcount div n_threads;
          bstart = n * block_size;
          bend = (if n = n_threads - 1 then bcount else (n + 1) * block_size)
      in case merge_worker K syms bstart bend idx 0 h of
           (h', res) \<Rightarrow>
             (case merge_workers K syms n_threads bcount idx ns h' of
                (h'', rest) \<Rightarrow> (h'', res # rest)))"

definition merge_results ::
  "'t collab \<Rightarrow> 't series \<Rightarrow> 't series list \<Rightarrow> nat \<Rightarrow> 't hash_set \<times> (error + int) list" where
  "merge_results K retval retval_list n_threads =
     merge_workers K (m_symbol_set retval) n_threads (bucket_count (m_container retval))
       (concat (successes (index_results K retval retval_list))) [0..<n_threads]
       (m_container retval)"

text \<open>
  \<^verbatim>\<open>final_merge\<close>.  The result is the exception that leaves the function, if any, and the
  target series as the function leaves it.
\<close>

definition final_merge ::
  "'g platform \<Rightarrow> 't collab \<Rightarrow> 't series \<Rightarrow> 't series list \<Rightarrow> nat \<Rightarrow> error option \<times> 't series" where
  "final_merge P K retval retval_list n_threads =
     (let e_vector = captured P 1 (index_results K retval retval_list) in
      if e_vector \<noteq> [] then (Some (hd e_vector), retval)
      else
        (case merge_results K retval retval_list n_threads of
           (h, results) \<Rightarrow>
             let retval1 = retval\<lparr>m_container := h\<rparr>;
                 e_vector = captured P 2 results
             in if e_vector \<noteq> [] then (Some (hd e_vector), retval1)
                else
                  let new_size = sum_list (successes results);
                      h2 = h\<lparr>n_elements := nat (new_size + int (hs_size h))\<rparr>;
                      retval2 = retval\<lparr>m_container := h2\<rparr>
                  in if bucket_count h2 \<noteq> 0
                        \<and> max_load_factor K < real (hs_size h2) / real (bucket_count h2)
                     then (case ceil_over_load P K (hs_size h2) of
                             Inl e \<Rightarrow> (Some e, retval2)
                           | Inr n \<Rightarrow>
                               (case hs_rehash K n h2 of
                                  Inl e \<Rightarrow> (Some e, retval2)
                                | Inr h3 \<Rightarrow> (None, retval\<lparr>m_container := h3\<rparr>)))
                     else (None, retval2)))"

text \<open>The exceptions in the vector from which \<^verbatim>\<open>final_merge\<close> rethrows, if a worker failed.\<close>

definition merge_exceptions ::
  "'g platform \<Rightarrow> 't collab \<Rightarrow> 't series \<Rightarrow> 't series list \<Rightarrow> nat \<Rightarrow> error list" where
  "merge_exceptions P K retval retval_list n_threads =
     (if captured P 1 (index_results K retval retval_list) \<noteq> []
      then captured P 1 (index_results K retval retval_list)
      else captured P 2 (snd (merge_results K retval retval_list n_threads)))"

text \<open>
  The end of the multi-threaded path: \<^verbatim>\<open>final_merge\<close> inside \<^verbatim>\<open>try\<close>, the handler that clears
  the sources and the target before it rethrows, and the clean-up of the sources on the
  normal path.  \<open>merge_guarded\<close> gives the exception, the target and the list of sources
  at the moment the block is left.
\<close>

definition cleanup :: "'t series list \<Rightarrow> 't series list" where
  "cleanup retval_list = map clear_container retval_list"

definition merge_guarded ::
  "'g platform \<Rightarrow> 't collab \<Rightarrow> 't series \<Rightarrow> 't series list \<Rightarrow> nat
     \<Rightarrow> error option \<times> 't series \<times> 't series list" where
  "merge_guarded P K retval retval_list n_threads =
     (case final_merge P K retval retval_list n_threads of
        (Some e, retval') \<Rightarrow> (Some e, clear_container retval', cleanup retval_list)
      | (None, retval') \<Rightarrow> (None, retval', cleanup retval_list))"

definition merge_and_return ::
  "'g platform \<Rightarrow> 't collab \<Rightarrow> 't series \<Rightarrow> 't series list \<Rightarrow> nat \<Rightarrow> error + 't series" where
  "merge_and_return P K retval retval_list n_threads =
     (case merge_guarded P K retval retval_list n_threads of
        (Some e, retval', retval_list') \<Rightarrow> Inl e
      | (None, retval', retval_list') \<Rightarrow> Inr retval')"

text \<open>
  The choice of the target of the merge: the first series of the list with enough
  buckets for the final estimate is moved out of the list; without one, the fresh
  series is rehashed.
\<close>

fun find_enough :: "'t collab \<Rightarrow> nat \<Rightarrow> 't series list \<Rightarrow> nat option" where
  "find_enough K final_estimate [] = None"
| "find_enough K final_estimate (r # rs) =
     (if real final_estimate \<le> real (bucket_count (m_container r)) * max_load_factor K
      then Some 0
      else map_option Suc (find_enough K final_estimate rs))"

definition choose_target ::
  "'t collab \<Rightarrow> nat \<Rightarrow> 't series \<Rightarrow> 't series list \<Rightarrow> error + ('t series \<times> 't series list)" where
  "choose_target K final_estimate retval retval_list =
     (case find_enough K final_estimate retval_list of
        Some i \<Rightarrow> Inr (retval_list ! i, take i retval_list @ drop (Suc i) retval_list)
      | None \<Rightarrow>
          (case hs_rehash K final_estimate (m_container retval) of
             Inl e \<Rightarrow> Inl e
           | Inr h \<Rightarrow> Inr (retval\<lparr>m_container := h\<rparr>, retval_list)))"

definition execute_multi ::
  "'g platform \<Rightarrow> 't collab \<Rightarrow> bool \<Rightarrow> 't series_multiplier \<Rightarrow> 't truncator \<Rightarrow> nat \<Rightarrow> nat \<Rightarrow> nat
     \<Rightarrow> error + 't series" where
  "execute_multi P K act m trunc size1 size2 n_threads =
     (case build_functors act trunc
             (map (\<lambda>i. block_of n_threads size1 i (m_v1 m)) [0..<n_threads]) (m_v2 m) of
        Inl e \<Rightarrow> Inl e
      | Inr (blocks, v2) \<Rightarrow>
          let results =
                map (\<lambda>b. run_functor P K
                            \<lparr>IsActive = act, m_ptr1 = b, m_ptr2 = v2, m_trunc = trunc\<rparr>
                            (fresh_retval m) (length b) size2) blocks;
              exceptions = captured P 0 results
          in if exceptions \<noteq> [] then Inl (hd exceptions)
             else
               (case make_functor act (concat blocks) v2 trunc of
                  Inl e \<Rightarrow> Inl e
                | Inr f \<Rightarrow>
                    (case estimate_final_series_size P K f size1 size2 (fresh_retval m) of
                       Inl e \<Rightarrow> Inl e
                     | Inr (est, retval) \<Rightarrow>
                         let final_estimate = (if est = 0 then 1 else est) in
                         (case choose_target K final_estimate retval (successes results) of
                            Inl e \<Rightarrow> Inl e
                          | Inr (target, sources) \<Rightarrow>
                              merge_and_return P K target sources n_threads))))"

text \<open>\<^verbatim>\<open>execute<Functor>\<close>, with the \<^verbatim>\<open>IsActive\<close> flag of the functor type.\<close>

definition execute ::
  "'g platform \<Rightarrow> 't collab \<Rightarrow> bool \<Rightarrow> 't series_multiplier \<Rightarrow> 't truncator \<Rightarrow> error + 't series" where
  "execute P K act m trunc =
     (if series_empty (sm_s1 m) \<or> series_empty (sm_s2 m) then Inr series_default
      else
        let size1 = length (m_v1 m); size2 = length (m_v2 m) in
        if size1 = 0 \<or> size2 = 0 then Inl AssertionFailed
        else
          (case thread_heuristic P size1 size2 of
             Inl e \<Rightarrow> Inl e
           | Inr n_threads \<Rightarrow>
               if n_threads = 1 \<or> main_thread_id P \<noteq> this_thread_id P
               then execute_single P K act m trunc size1 size2
               else execute_multi P K act m trunc size1 size2 n_threads))"

text \<open>\<^verbatim>\<open>operator()\<close> and the whole multiplication of two series.\<close>

definition call_operator ::
  "'g platform \<Rightarrow> 't collab \<Rightarrow> 't series_multiplier \<Rightarrow> 't truncator \<Rightarrow> error + 't series" where
  "call_operator P K m trunc =
     (if is_active trunc then execute P K True m trunc else execute P K False m trunc)"

definition multiply ::
  "'g platform \<Rightarrow> 't collab \<Rightarrow> 't series \<Rightarrow> 't series \<Rightarrow> 't truncator \<Rightarrow> error + 't series" where
  "multiply P K s1 s2 trunc =
     (case make_multiplier s1 s2 of
        Inl e \<Rightarrow> Inl e
      | Inr m \<Rightarrow> call_operator P K m trunc)"

subsection \<open>Notions used to state the properties of the estimator\<close>






text \<open>
  \<open>trial_runs\<close> lists, for the first \<open>n\<close> trials, the variables of the estimator at the
  start of the trial and the final state of the sweep of the trial; \<open>run_count\<close> and
  \<open>run_filtered\<close> read the two counters of a trial.
\<close>

fun trial_runs ::
  "'g platform \<Rightarrow> 't collab \<Rightarrow> 't default_functor \<Rightarrow> nat \<Rightarrow> nat \<Rightarrow> ('t, 'g) trial_state
     \<Rightarrow> (('t, 'g) trial_state \<times> 't sweep_state) list" where
  "trial_runs P K f max_M 0 s = []"
| "trial_runs P K f max_M (Suc n) s =
     (case trial_sweep P K f max_M s of
        Inl e \<Rightarrow> []
      | Inr res \<Rightarrow> (s, snd (snd res)) # trial_runs P K f max_M n (trial_finish s res))"

definition run_count :: "('t, 'g) trial_state \<times> 't sweep_state \<Rightarrow> int" where
  "run_count run = int (sw_count (snd run))"

definition run_filtered :: "('t, 'g) trial_state \<times> 't sweep_state \<Rightarrow> int" where
  "run_filtered run = int (sw_filtered (snd run))"



subsection \<open>A small instance\<close>

text \<open>
  Terms are the monomials \<open>x\<^sup>n\<close> with coefficient one, written as their
  exponent; the product of two terms adds the exponents.  The truncator is active and
  skipping, orders the terms by degree and skips a product of degree above three.
\<close>

definition ex_trunc :: "nat truncator" where
  "ex_trunc = \<lparr>is_active = True, is_skipping = True, is_filtering = False,
               compare_terms = (\<lambda>a b. a < b),
               trunc_skip = (\<lambda>a b. 3 < a + b),
               trunc_filter = (\<lambda>t. 3 < t)\<rparr>"

definition ex_collab :: "nat collab" where
  "ex_collab = \<lparr>term_multiply = (\<lambda>a b syms. Inr (a + b, [])),
                series_insert = record_insert,
                hs_rehash = (\<lambda>n h. Inr (h\<lparr>n_buckets := n\<rparr>)),
                max_load_factor = 1,
                hs_bucket = (\<lambda>h t. if n_buckets h = 0 then Inl ZeroDivisionError
                                    else Inr (t mod n_buckets h)),
                merge_entry = (\<lambda>syms b t h.
                   if t \<in> set (elems h) then (h, Inr 0)
                   else (h\<lparr>elems := elems h @ [t]\<rparr>, Inr 1))\<rparr>"

text \<open>
  A series insertion that stores a term unless it is there already, a platform with
  64-bit sizes whose shuffle leaves the order alone, inactive functors over given
  arrays, and series with given terms.
\<close>

definition dedup_insert :: "nat \<Rightarrow> symbol_set \<Rightarrow> nat hash_set \<Rightarrow> error + nat hash_set" where
  "dedup_insert t syms h =
     (if t \<in> set (elems h) then Inr h
      else Inr (h\<lparr>elems := elems h @ [t], n_elements := n_elements h + 1\<rparr>))"

definition ex_platform :: "unit platform" where
  "ex_platform = \<lparr>size_max = 2 ^ 64 - 1, mt19937_default = (),
                  random_shuffle = (\<lambda>g xs. (xs, g)),
                  settings_n_threads = 1, main_thread_id = 0, this_thread_id = 0,
                  capture_time = (\<lambda>g i. i)\<rparr>"

definition ex_collab2 :: "nat collab" where
  "ex_collab2 = ex_collab\<lparr>series_insert := dedup_insert\<rparr>"

definition ex_functor_of :: "nat list \<Rightarrow> nat list \<Rightarrow> nat default_functor" where
  "ex_functor_of xs ys = \<lparr>IsActive = False, m_ptr1 = xs, m_ptr2 = ys,
                 m_trunc = ex_trunc\<lparr>is_active := False\<rparr>\<rparr>"

definition ex_series :: "nat series" where
  "ex_series = \<lparr>m_symbol_set = [], m_container = \<lparr>elems = [100], n_buckets = 1, n_elements = 1\<rparr>\<rparr>"

definition ex_failing :: "nat collab" where
  "ex_failing = ex_collab\<lparr>hs_bucket := (\<lambda>h t. Inl (Foreign t))\<rparr>"

definition ex_late_first :: "unit platform" where
  "ex_late_first = ex_platform\<lparr>capture_time := (\<lambda>g i. 1 - i)\<rparr>"

definition ex_series_of :: "nat list \<Rightarrow> nat series" where
  "ex_series_of ts =
     \<lparr>m_symbol_set = [], m_container = \<lparr>elems = ts, n_buckets = length ts, n_elements = length ts\<rparr>\<rparr>"

definition ex_multiplier :: "nat series_multiplier" where
  "ex_multiplier = \<lparr>sm_s1 = ex_series_of [0, 1], sm_s2 = ex_series_of [0, 4, 8],
                    m_v1 = [0, 1], m_v2 = [0, 4, 8]\<rparr>"

definition ex_two_threads :: "unit platform" where
  "ex_two_threads = ex_platform\<lparr>settings_n_threads := 2\<rparr>"

definition ex_big_multiplier :: "nat series_multiplier" where
  "ex_big_multiplier =
     \<lparr>sm_s1 = \<lparr>m_symbol_set = [],
                m_container = \<lparr>elems = replicate 1000 0, n_buckets = 1000, n_elements = 1000\<rparr>\<rparr>,
      sm_s2 = \<lparr>m_symbol_set = [],
                m_container = \<lparr>elems = replicate 200 0, n_buckets = 200, n_elements = 200\<rparr>\<rparr>,
      m_v1 = replicate 1000 0, m_v2 = replicate 200 0\<rparr>"




section \<open>Properties\<close>

subsection \<open>The tiler visits the pairs of the plain double loop\<close>

lemma for_loop_append:
  "for_loop (xs @ ys) body s =
     (case for_loop xs body s of Inl e \<Rightarrow> Inl e | Inr s' \<Rightarrow> for_loop ys body s')"
  by (induction xs arbitrary: s) (auto split: sum.splits)

lemma for_loop_nested:
  "for_loop xs (\<lambda>x s. for_loop (g x) B s) s = for_loop (concat (map g xs)) B s"
  by (induction xs arbitrary: s) (auto simp: for_loop_append split: sum.splits)

lemma row_loop_visits:
  "row_loop K f i js r = for_loop (row_taken f i js) (visit K f) r"
  by (induction js arbitrary: r) (auto simp: row_taken_def visit_def split: sum.splits)

lemma naive_row_visits:
  "for_loop js (\<lambda>j r. if functor_skip f i j then Inr r else multiply_insert K f i j r) r
     = for_loop (row_kept f i js) (visit K f) r"
  by (induction js arbitrary: r) (auto simp: row_kept_def visit_def split: sum.splits)

lemma rect_loop_visits:
  "for_loop is (\<lambda>i r. row_loop K f i js r) r = for_loop (rect_taken f is js) (visit K f) r"
  unfolding rect_taken_def row_loop_visits by (rule for_loop_nested)

lemma row_loop_visits_fun: "row_loop K f i js = for_loop (row_taken f i js) (visit K f)"
  by (rule ext) (rule row_loop_visits)

lemma naive_row_visits_fun:
  "for_loop js (\<lambda>j r. if functor_skip f i j then Inr r else multiply_insert K f i j r)
     = for_loop (row_kept f i js) (visit K f)"
  by (rule ext) (rule naive_row_visits)

lemma for_loop_nested_fun:
  "for_loop xs (\<lambda>x. for_loop (g x) B) = for_loop (concat (map g xs)) B"
  by (rule ext) (rule for_loop_nested)

lemma for_loop_seq_fun:
  "(\<lambda>s. case for_loop xs body s of Inl e \<Rightarrow> Inl e | Inr s' \<Rightarrow> for_loop ys body s')
     = for_loop (xs @ ys) body"
  by (rule ext) (simp add: for_loop_append)

lemma blocked_multiplication_visits:
  "blocked_multiplication K f size1 size2 r = for_loop (blocked_pairs f size1 size2) (visit K f) r"
  unfolding blocked_multiplication_def blocked_pairs_def Let_def tile_def rect_taken_def
  by (simp only: row_loop_visits_fun for_loop_nested_fun for_loop_seq_fun for_loop_append[symmetric])

lemma naive_multiplication_visits:
  "naive_multiplication K f size1 size2 r = for_loop (naive_pairs f size1 size2) (visit K f) r"
  unfolding naive_multiplication_def naive_pairs_def rect_kept_def
  by (simp only: naive_row_visits_fun for_loop_nested_fun)

lemma takeWhile_eq_filter_sorted:
  "sorted xs \<Longrightarrow> (\<forall>x\<in>set xs. \<forall>y\<in>set xs. x \<le> y \<longrightarrow> \<not> P x \<longrightarrow> \<not> P y)
     \<Longrightarrow> takeWhile P xs = filter P (xs :: nat list)"
proof (induction xs)
  case Nil
  show ?case by simp
next
  case (Cons x xs)
  have s: "sorted xs" and le: "\<forall>y\<in>set xs. x \<le> y"
    using Cons.prems(1) by simp_all
  show ?case
  proof (cases "P x")
    case True
    have "\<forall>a\<in>set xs. \<forall>b\<in>set xs. a \<le> b \<longrightarrow> \<not> P a \<longrightarrow> \<not> P b"
      using Cons.prems(2) by (meson list.set_intros(2))
    with s have "takeWhile P xs = filter P xs" by (rule Cons.IH)
    with True show ?thesis by simp
  next
    case False
    have "\<forall>y\<in>set xs. \<not> P y"
      using Cons.prems(2) False le by (meson list.set_intros)
    then have "filter P xs = []"
      by (simp add: filter_empty_conv)
    with False show ?thesis by simp
  qed
qed

lemma row_taken_eq_kept:
  assumes "skip_monotone f size1 size2" "i < size1" "b \<le> size2"
  shows "row_taken f i [a..<b] = row_kept f i [a..<b]"
proof -
  have "takeWhile (\<lambda>j. \<not> functor_skip f i j) [a..<b] = filter (\<lambda>j. \<not> functor_skip f i j) [a..<b]"
  proof (rule takeWhile_eq_filter_sorted)
    show "sorted [a..<b]" by simp
    show "\<forall>x\<in>set [a..<b]. \<forall>y\<in>set [a..<b]. x \<le> y \<longrightarrow>
            \<not> \<not> functor_skip f i x \<longrightarrow> \<not> \<not> functor_skip f i y"
    proof (intro ballI impI)
      fix x y
      assume xy: "x \<in> set [a..<b]" "y \<in> set [a..<b]" "x \<le> y" and sk: "\<not> \<not> functor_skip f i x"
      from xy assms(3) have "x < size2" "y < size2" by auto
      with assms(1,2) xy(3) sk have "functor_skip f i y"
        unfolding skip_monotone_def by blast
      then show "\<not> \<not> functor_skip f i y" by simp
    qed
  qed
  then show ?thesis by (simp add: row_taken_def row_kept_def)
qed

lemma rect_taken_eq_kept:
  assumes "skip_monotone f size1 size2" "\<forall>i\<in>set is. i < size1" "b \<le> size2"
  shows "rect_taken f is [a..<b] = rect_kept f is [a..<b]"
proof -
  have "map (\<lambda>i. row_taken f i [a..<b]) is = map (\<lambda>i. row_kept f i [a..<b]) is"
    using assms by (intro map_cong refl row_taken_eq_kept) auto
  then show ?thesis unfolding rect_taken_def rect_kept_def by (rule arg_cong)
qed

lemma mset_rect_kept_cols:
  "mset (rect_kept f is (js1 @ js2)) = mset (rect_kept f is js1) + mset (rect_kept f is js2)"
  by (induction "is") (simp_all add: rect_kept_def row_kept_def)

lemma mset_rect_kept_col_tiles:
  "mset (concat (map (\<lambda>n. rect_kept f is (g n)) ns)) = mset (rect_kept f is (concat (map g ns)))"
proof (induction ns)
  case Nil
  show ?case by (induction "is") (simp_all add: rect_kept_def row_kept_def)
next
  case (Cons n ns)
  then show ?case by (simp add: mset_rect_kept_cols)
qed

lemma rect_kept_row_tiles:
  "concat (map (\<lambda>n. rect_kept f (g n) js) ns) = rect_kept f (concat (map g ns)) js"
  by (induction ns) (simp_all add: rect_kept_def)

lemma rect_kept_rows: "rect_kept f (is1 @ is2) js = rect_kept f is1 js @ rect_kept f is2 js"
  by (simp add: rect_kept_def)

lemma concat_tiles: "concat (map tile [0..<k]) = [0..<k * 256]"
proof (induction k)
  case 0
  show ?case by simp
next
  case (Suc k)
  have "[0..<k * 256] @ [k * 256..<k * 256 + 256] = [0..<k * 256 + 256]"
    by (metis upt_add_eq_append zero_le)
  with Suc show ?case by (simp add: tile_def add.commute)
qed

lemma tiles_and_rest: "[0..<n div 256 * 256] @ [n div 256 * 256..<n] = [0..<n]"
proof -
  have "n div 256 * 256 \<le> n" by simp
  then show ?thesis
    by (metis le_add_diff_inverse upt_add_eq_append zero_le)
qed

lemma mset_concat_cong:
  "(\<And>x. x \<in> set xs \<Longrightarrow> mset (F x) = mset (G x)) \<Longrightarrow>
     mset (concat (map F xs)) = mset (concat (map G xs))"
  by (induction xs) simp_all

lemma tile_bound: "n < k div 256 \<Longrightarrow> i \<in> set (tile n) \<Longrightarrow> i < k"
proof -
  assume a: "n < k div 256" "i \<in> set (tile n)"
  then have "i < (n + 1) * 256" by (simp add: tile_def)
  also have "\<dots> \<le> (k div 256) * 256" using a(1) by (intro mult_le_mono1) simp
  also have "\<dots> \<le> k" by simp
  finally show ?thesis .
qed

lemma tile_upper: "n < k div 256 \<Longrightarrow> n * 256 + 256 \<le> (k::nat)"
proof -
  assume a: "n < k div 256"
  have "n * 256 + 256 = (n + 1) * 256" by simp
  also have "\<dots> \<le> (k div 256) * 256" using a by (intro mult_le_mono1) simp
  also have "\<dots> \<le> k" by simp
  finally show ?thesis .
qed

lemma mset_blocked_pairs:
  assumes mono: "skip_monotone f size1 size2"
  shows "mset (blocked_pairs f size1 size2) = mset (naive_pairs f size1 size2)"
proof -
  let ?nb1 = "size1 div 256" and ?nb2 = "size2 div 256"
  let ?R1 = "[?nb1 * 256..<size1]" and ?R2 = "[?nb2 * 256..<size2]"
  have cols: "concat (map tile [0..<?nb2]) @ ?R2 = [0..<size2]"
    by (simp add: concat_tiles tiles_and_rest)
  have rows: "concat (map tile [0..<?nb1]) @ ?R1 = [0..<size1]"
    by (simp add: concat_tiles tiles_and_rest)
  have strip: "mset (concat (map (\<lambda>n2. rect_taken f is (tile n2)) [0..<?nb2]) @ rect_taken f is ?R2)
      = mset (rect_kept f is [0..<size2])" if "\<forall>i\<in>set is. i < size1" for "is"
  proof -
    have "concat (map (\<lambda>n2. rect_taken f is (tile n2)) [0..<?nb2])
        = concat (map (\<lambda>n2. rect_kept f is (tile n2)) [0..<?nb2])"
      using that mono
      by (intro arg_cong[where f = concat] map_cong refl)
         (auto simp: tile_def intro!: rect_taken_eq_kept[where ?size1.0 = size1 and ?size2.0 = size2] tile_upper)
    moreover have "rect_taken f is ?R2 = rect_kept f is ?R2"
      using that mono by (intro rect_taken_eq_kept[where ?size1.0 = size1 and ?size2.0 = size2]) auto
    ultimately have "mset (concat (map (\<lambda>n2. rect_taken f is (tile n2)) [0..<?nb2]) @ rect_taken f is ?R2)
        = mset (rect_kept f is (concat (map tile [0..<?nb2]) @ ?R2))"
      by (simp add: mset_rect_kept_col_tiles mset_rect_kept_cols)
    then show ?thesis by (simp only: cols)
  qed
  have "mset (blocked_pairs f size1 size2)
      = mset (concat (map (\<lambda>n1. concat (map (\<lambda>n2. rect_taken f (tile n1) (tile n2)) [0..<?nb2])
                        @ rect_taken f (tile n1) ?R2) [0..<?nb1]))
        + mset (concat (map (\<lambda>n2. rect_taken f ?R1 (tile n2)) [0..<?nb2]) @ rect_taken f ?R1 ?R2)"
    by (simp add: blocked_pairs_def)
  also have "mset (concat (map (\<lambda>n1. concat (map (\<lambda>n2. rect_taken f (tile n1) (tile n2)) [0..<?nb2])
                        @ rect_taken f (tile n1) ?R2) [0..<?nb1]))
      = mset (concat (map (\<lambda>n1. rect_kept f (tile n1) [0..<size2]) [0..<?nb1]))"
    by (rule mset_concat_cong, rule strip) (auto intro: tile_bound)
  also have "mset (concat (map (\<lambda>n2. rect_taken f ?R1 (tile n2)) [0..<?nb2]) @ rect_taken f ?R1 ?R2)
      = mset (rect_kept f ?R1 [0..<size2])"
    by (rule strip) auto
  also have "mset (concat (map (\<lambda>n1. rect_kept f (tile n1) [0..<size2]) [0..<?nb1]))
        + mset (rect_kept f ?R1 [0..<size2])
      = mset (rect_kept f (concat (map tile [0..<?nb1]) @ ?R1) [0..<size2])"
    by (simp add: rect_kept_row_tiles rect_kept_rows)
  finally show ?thesis by (simp only: rows naive_pairs_def)
qed

lemma add_terms_Nil [simp]: "add_terms [] r = r"
  by (simp add: add_terms_def)

lemma add_terms_add_terms [simp]: "add_terms ts (add_terms us r) = add_terms (us @ ts) r"
  by (simp add: add_terms_def)

lemma add_terms_syms [simp]: "m_symbol_set (add_terms ts r) = m_symbol_set r"
  by (simp add: add_terms_def)

lemma add_terms_elems [simp]: "elems (m_container (add_terms ts r)) = elems (m_container r) @ ts"
  by (simp add: add_terms_def)

lemma insert_terms_record:
  "series_insert K = record_insert \<Longrightarrow>
     insert_terms K f True ts r
       = Inr (add_terms (filter (\<lambda>t. \<not> (\<not> is_skipping (m_trunc f) \<and> functor_filter f t)) ts) r)"
  by (induction ts arbitrary: r)
     (auto simp: insert_one_def insert_into_def record_insert_def add_terms_def)

lemma visit_record:
  "series_insert K = record_insert \<Longrightarrow>
     visit K f p r = (case contrib K f (m_symbol_set r) p of
                        Inl e \<Rightarrow> Inl e | Inr ts \<Rightarrow> Inr (add_terms ts r))"
  by (simp add: visit_def multiply_insert_def functor_insert_def contrib_def insert_terms_record
           del: insert_terms.simps split: sum.splits)

lemma accumulated_visits:
  assumes "series_insert K = record_insert"
  shows "accumulated (for_loop ps (visit K f) r)
     = (if \<forall>p\<in>set ps. isl (contrib K f (m_symbol_set r) p) = False
        then Some (mset (elems (m_container r))
                   + (\<Sum>p\<in>#mset ps. mset (projr (contrib K f (m_symbol_set r) p))))
        else None)"
proof (induction ps arbitrary: r)
  case Nil
  show ?case by (simp add: accumulated_def)
next
  case (Cons p ps)
  show ?case
  proof (cases "contrib K f (m_symbol_set r) p")
    case (Inl e)
    then show ?thesis by (simp add: visit_record[OF assms] accumulated_def)
  next
    case (Inr ts)
    then show ?thesis
      using Cons.IH[of "add_terms ts r"]
      by (simp add: visit_record[OF assms] ac_simps)
  qed
qed

lemma accumulated_mset_cong:
  assumes "series_insert K = record_insert" "mset ps = mset qs"
  shows "accumulated (for_loop ps (visit K f) r) = accumulated (for_loop qs (visit K f) r)"
proof -
  have "set ps = set qs" using assms(2) by (rule mset_eq_setD)
  then show ?thesis
    by (simp add: accumulated_visits[OF assms(1)] assms(2))
qed

text \<open>
  Claim C1.  Let the skip predicate of the functor be monotone in \<open>j\<close> on every row
  \<open>i < size1\<close>, as it is for operands sorted by an active skipping truncator.  Then
  the multiset of terms that \<^verbatim>\<open>blocked_multiplication\<close> (tiles of side 256, inner loop
  left at the first skipped pair) hands to the series equals the multiset handed over by
  the plain double loop that tests \<^verbatim>\<open>skip\<close> on every pair of
  \<open>[0, size1) \<times> [0, size2)\<close> and leaves out exactly the skipped pairs; and one of
  the two raises an exception only if the other does.
\<close>

theorem blocked_multiplication_refines_naive:
  assumes "skip_monotone f size1 size2"
  shows "accumulated (blocked_multiplication (K\<lparr>series_insert := record_insert\<rparr>) f size1 size2 r)
       = accumulated (naive_multiplication (K\<lparr>series_insert := record_insert\<rparr>) f size1 size2 r)"
  unfolding blocked_multiplication_visits naive_multiplication_visits
  by (rule accumulated_mset_cong[OF _ mset_blocked_pairs[OF assms]]) simp

theorem blocked_multiplication_refines_naive_witness:
  "(case make_functor True [2, 0, 1] [1, 2, 0] ex_trunc of
      Inl e \<Rightarrow> False
    | Inr f \<Rightarrow>
        m_ptr1 f = [0, 1, 2] \<and> m_ptr2 f = [0, 1, 2] \<and> skip_monotone f 3 3 \<and>
        accumulated (blocked_multiplication (ex_collab\<lparr>series_insert := record_insert\<rparr>) f 3 3 series_default)
          = accumulated (naive_multiplication (ex_collab\<lparr>series_insert := record_insert\<rparr>) f 3 3 series_default))"
proof -
  let ?f = "\<lparr>IsActive = True, m_ptr1 = [0, 1, 2], m_ptr2 = [0, 1, 2], m_trunc = ex_trunc\<rparr>"
  have mk: "make_functor True [2, 0, 1] [1, 2, 0] ex_trunc = Inr ?f"
    by (simp add: make_functor_def sort_for_skip_def std_sort_def ex_trunc_def)
  have nth: "[0, 1, 2 :: nat] ! i = i" if "i < 3" for i
  proof -
    from that have "i = 0 \<or> i = 1 \<or> i = 2" by arith
    then show ?thesis by auto
  qed
  have sk: "functor_skip ?f i j \<longleftrightarrow> 3 < i + j" if "i < 3" "j < 3" for i j
    using nth[OF that(1)] nth[OF that(2)] by (simp add: functor_skip_def ex_trunc_def)
  have mono: "skip_monotone ?f 3 3"
    unfolding skip_monotone_def
  proof (intro allI impI)
    fix i j j' :: nat
    assume b: "i < 3" "j < 3" "j' < 3" and le: "j \<le> j'" and s: "functor_skip ?f i j"
    from s b have "3 < i + j" by (simp only: sk)
    with le have "3 < i + j'" by arith
    with b show "functor_skip ?f i j'" by (simp only: sk)
  qed
  show ?thesis
    using mono blocked_multiplication_refines_naive[OF mono, of ex_collab series_default]
    unfolding mk by simp
qed

subsection \<open>The density estimator\<close>

lemma insert_terms_syms:
  "insert_terms K f c ts r = Inr r' \<Longrightarrow> m_symbol_set r' = m_symbol_set r"
proof (induction ts arbitrary: r)
  case Nil
  then show ?case by simp
next
  case (Cons t ts)
  from Cons.prems obtain r1 where 1: "insert_one K f c t r = Inr r1"
    and 2: "insert_terms K f c ts r1 = Inr r'"
    by (auto split: sum.splits)
  from 1 have "m_symbol_set r1 = m_symbol_set r"
    by (auto simp: insert_one_def insert_into_def split: if_splits sum.splits)
  with Cons.IH[OF 2] show ?case by simp
qed

lemma functor_insert_syms:
  "functor_insert K f c tmp r = Inr r' \<Longrightarrow> m_symbol_set r' = m_symbol_set r"
  unfolding functor_insert_def by (rule insert_terms_syms)

lemma wrap_iterators_keeps:
  "sw_count (wrap_iterators v s) = sw_count s"
  "sw_filtered (wrap_iterators v s) = sw_filtered s"
  "sw_retval (wrap_iterators v s) = sw_retval s"
  by (simp_all add: wrap_iterators_def Let_def)

lemma count_n_filtered_le: "count_n_filtered f tmp \<le> result_size tmp"
proof -
  have "length (filter (functor_filter f) (fst tmp # snd tmp)) \<le> length (fst tmp # snd tmp)"
    by (rule length_filter_le)
  then show ?thesis by (simp add: count_n_filtered_def result_size_def)
qed

lemma length_rotate_last [simp]: "length (rotate_last xs) = length xs"
  by (cases xs rule: rev_cases) (simp_all add: rotate_last_def)

lemma length_rotations [simp]: "length ((rotate_last ^^ q) xs) = length xs"
  by (induction q) simp_all

lemma mset_rotate_last [simp]: "mset (rotate_last xs) = mset xs"
  by (cases xs rule: rev_cases) (simp_all add: rotate_last_def)

lemma wrap_iterators_mset:
  "mset (sw_idx2 (wrap_iterators v s)) = mset (sw_idx2 s)"
  by (simp add: wrap_iterators_def Let_def)

lemma sweep_post:
  "sweep P K f max_M v s = Inr w \<Longrightarrow>
     m_symbol_set (sw_retval w) = m_symbol_set (sw_retval s)
     \<and> sw_count s \<le> sw_count w
     \<and> sw_filtered w + sw_count s \<le> sw_count w + sw_filtered s
     \<and> mset (sw_idx2 w) = mset (sw_idx2 s)"
proof (induction P K f max_M v s rule: sweep.induct)
  case (1 P K f max_M v s)
  show ?case
  proof (cases "sw_count s < max_M")
    case False
    with "1.prems" have "w = s" by (subst (asm) sweep.simps) simp
    then show ?thesis by simp
  next
    case True
    define s' where "s' = wrap_iterators v s"
    note keep = wrap_iterators_keeps[of v s, folded s'_def]
      wrap_iterators_mset[of v s, folded s'_def]
    from "1.prems" True obtain tmp r where
      call: "functor_call K f (v ! sw_it1 s') (sw_idx2 s' ! sw_it2 s')
               (m_symbol_set (sw_retval s')) = Inr tmp"
      and ins: "functor_insert K f False tmp (sw_retval s') = Inr r"
      and ov1: "\<not> (size_max P < result_size tmp \<or> size_max P - result_size tmp < sw_count s')"
      by (subst (asm) sweep.simps) (auto simp: Let_def s'_def split: sum.splits if_splits)
    have syms: "m_symbol_set r = m_symbol_set (sw_retval s)"
      using functor_insert_syms[OF ins] keep by simp
    show ?thesis
    proof (cases "series_size r \<noteq> sw_count s' + result_size tmp")
      case grow: True
      with "1.prems" True call ins ov1 have w: "w = s'\<lparr>sw_retval := r\<rparr>"
        by (subst (asm) sweep.simps) (simp add: Let_def s'_def[symmetric])
      show ?thesis using syms keep by (simp add: w)
    next
      case grow: False
      define s'' where "s'' = s'\<lparr>sw_retval := r,
                            sw_filtered := sw_filtered s' + count_n_filtered f tmp,
                            sw_count := sw_count s' + result_size tmp,
                            sw_it1 := sw_it1 s' + 1,
                            sw_it2 := sw_it2 s' + 1\<rparr>"
      from "1.prems" True call ins ov1 grow have
        ov2: "\<not> (size_max P < count_n_filtered f tmp
                 \<or> size_max P - count_n_filtered f tmp < sw_filtered s')"
        and rec: "sweep P K f max_M v s'' = Inr w"
        by (subst (asm) sweep.simps, simp add: Let_def s'_def[symmetric] s''_def split: if_splits)+
      have IH: "m_symbol_set (sw_retval w) = m_symbol_set (sw_retval s'')
         \<and> sw_count s'' \<le> sw_count w
         \<and> sw_filtered w + sw_count s'' \<le> sw_count w + sw_filtered s''
         \<and> mset (sw_idx2 w) = mset (sw_idx2 s'')"
        using "1.IH"[OF True s'_def call ins _ _ _ rec[unfolded s''_def]] ov1 grow ov2
        by (simp add: s''_def)
      have "count_n_filtered f tmp \<le> result_size tmp" by (rule count_n_filtered_le)
      with IH syms keep show ?thesis by (simp add: s''_def)
    qed
  qed
qed




lemma sqrt_search_bounds:
  "k * k \<le> n \<Longrightarrow>
     sqrt_search n k * sqrt_search n k \<le> n \<and> n < (sqrt_search n k + 1) * (sqrt_search n k + 1)"
proof (induction n k rule: sqrt_search.induct)
  case (1 n k)
  show ?case
  proof (cases "(k + 1) * (k + 1) \<le> n")
    case True
    then have "sqrt_search n k = sqrt_search n (k + 1)" by (subst sqrt_search.simps) simp
    with "1.IH"[OF True True] show ?thesis by simp
  next
    case False
    then have "sqrt_search n k = k" by (subst sqrt_search.simps) simp
    with False "1.prems" show ?thesis by simp
  qed
qed

lemma integer_div_nonneg:
  "0 \<le> a \<Longrightarrow> 0 < b \<Longrightarrow> integer_div a b = Inr (a div b)"
  by (cases "a = 0") (simp_all add: integer_div_def sgn_if)

lemma integer_div_Inr: "integer_div a b = Inr q \<Longrightarrow> b \<noteq> 0"
  by (auto simp: integer_div_def split: if_splits)


lemma trial_sweep_post:
  assumes "trial_sweep P K f max_M s = Inr res"
  shows "m_symbol_set (sw_retval (snd (snd res))) = m_symbol_set (ts_retval s)
     \<and> sw_filtered (snd (snd res)) \<le> sw_count (snd (snd res))"
proof -
  obtain v1 g1 where sh1: "random_shuffle P (ts_engine s) (ts_idx1 s) = (v1, g1)"
    by (cases "random_shuffle P (ts_engine s) (ts_idx1 s)")
  obtain v2 g2 where sh2: "random_shuffle P g1 (ts_idx2 s) = (v2, g2)"
    by (cases "random_shuffle P g1 (ts_idx2 s)")
  let ?s0 = "\<lparr>sw_count = 0, sw_filtered = 0, sw_it1 = 0, sw_it2 = 0,
               sw_idx2 = v2, sw_retval = ts_retval s\<rparr>"
  from assms obtain w where sw: "sweep P K f max_M v1 ?s0 = Inr w" and res: "res = (v1, g2, w)"
    by (auto simp: trial_sweep_def sh1 sh2 split: sum.splits)
  from sweep_post[OF sw] show ?thesis
    by (simp add: res)
qed




lemma trial_runs_le:
  "run \<in> set (trial_runs P K f max_M n s) \<Longrightarrow> run_filtered run \<le> run_count run"
proof (induction n arbitrary: s)
  case 0
  then show ?case by simp
next
  case (Suc n)
  show ?case
  proof (cases "trial_sweep P K f max_M s")
    case (Inl e)
    with Suc.prems show ?thesis by simp
  next
    case (Inr r0)
    with Suc.prems have "run = (s, snd (snd r0))
        \<or> run \<in> set (trial_runs P K f max_M n (trial_finish s r0))"
      by simp
    then show ?thesis
    proof
      assume "run = (s, snd (snd r0))"
      with trial_sweep_post[OF Inr] show ?thesis by (simp add: run_filtered_def run_count_def)
    next
      assume "run \<in> set (trial_runs P K f max_M n (trial_finish s r0))"
      then show ?thesis by (rule Suc.IH)
    qed
  qed
qed




lemma trial_finish_fields:
  "ts_total (trial_finish s res) = ts_total s + int (sw_count (snd (snd res)))"
  "ts_filtered (trial_finish s res) = ts_filtered s + int (sw_filtered (snd (snd res)))"
  "ts_retval (trial_finish s res) = clear_container (sw_retval (snd (snd res)))"
  by (cases res; cases "snd res"; simp add: trial_finish_def)+

lemma trials_post:
  "for_loop ns (\<lambda>n. trial P K f max_M) s = Inr s' \<Longrightarrow>
     length (trial_runs P K f max_M (length ns) s) = length ns
     \<and> ts_total s' = ts_total s + sum_list (map run_count (trial_runs P K f max_M (length ns) s))
     \<and> ts_filtered s'
           = ts_filtered s + sum_list (map run_filtered (trial_runs P K f max_M (length ns) s))
     \<and> m_symbol_set (ts_retval s') = m_symbol_set (ts_retval s)
     \<and> (ns \<noteq> [] \<longrightarrow> m_container (ts_retval s') = hs_empty)"
proof (induction ns arbitrary: s)
  case Nil
  then show ?case by simp
next
  case (Cons n ns)
  from Cons.prems obtain s1 where t: "trial P K f max_M s = Inr s1"
    and rest1: "for_loop ns (\<lambda>n. trial P K f max_M) s1 = Inr s'"
    by (auto split: sum.splits)
  from t obtain res where sw: "trial_sweep P K f max_M s = Inr res"
    and s1: "s1 = trial_finish s res"
    by (auto simp: trial_def split: sum.splits)
  from rest1 s1 have rest: "for_loop ns (\<lambda>n. trial P K f max_M) (trial_finish s res) = Inr s'"
    by simp
  note IH = Cons.IH[OF rest]
  have syms: "m_symbol_set (ts_retval (trial_finish s res)) = m_symbol_set (ts_retval s)"
    using trial_sweep_post[OF sw] by (simp add: trial_finish_fields clear_container_def)
  have cleared: "m_container (ts_retval (trial_finish s res)) = hs_empty"
    by (simp add: trial_finish_fields clear_container_def hs_clear_def)
  show ?case
  proof (cases "ns = []")
    case True
    with rest have "s' = trial_finish s res" by simp
    with True sw syms cleared show ?thesis
      by (simp add: trial_finish_fields run_count_def run_filtered_def)
  next
    case False
    with IH sw syms show ?thesis
      by (simp add: trial_finish_fields run_count_def run_filtered_def)
  qed
qed


lemma ex_estimate_4:
  "estimate_final_series_size ex_platform ex_collab2 (ex_functor_of [0, 1, 2, 3] [0, 4, 8, 12]) 4 4 ex_series
     = Inr (4, series_default)"
  by code_simp

lemma run_count_sum_nonneg: "0 \<le> sum_list (map run_count rs)"
  by (rule sum_list_nonneg) (auto simp: run_count_def)

lemma run_filtered_sum_nonneg: "0 \<le> sum_list (map run_filtered rs)"
  by (rule sum_list_nonneg) (auto simp: run_filtered_def)

lemma estimate_unfold:
  assumes "0 < size1" "0 < size2"
    and est: "estimate_final_series_size P K f size1 size2 retval = Inr (n, r')"
  obtains max_M s where
    "max_M * max_M \<le> size1 * size2 div 4" "size1 * size2 div 4 < (max_M + 1) * (max_M + 1)"
    "for_loop [0..<10] (\<lambda>n. trial P K f max_M) (estimator_init P size1 size2 retval) = Inr s"
    "ts_total s \<noteq> 0"
    "integer_div (ts_total s div 10 * (ts_total s div 10) * 4 * (ts_total s - ts_filtered s))
        (ts_total s) = Inr (int n)"
    "r' = ts_retval s"
proof -
  have q: "integer_div (int size1 * int size2) 4 = Inr (int (size1 * size2 div 4))"
    by (subst integer_div_nonneg) (simp_all add: zdiv_int)
  define max_M where "max_M = sqrt_search (size1 * size2 div 4) 0"
  have sq: "integer_sqrt (int (size1 * size2 div 4)) = int max_M"
    by (simp add: integer_sqrt_def max_M_def)
  have b: "max_M * max_M \<le> size1 * size2 div 4 \<and> size1 * size2 div 4 < (max_M + 1) * (max_M + 1)"
    unfolding max_M_def by (rule sqrt_search_bounds) simp
  from est assms(1,2) have fits: "integer_to_size P (int max_M) = Inr max_M"
    by (auto simp: estimate_final_series_size_def Let_def q sq integer_to_size_def
             split: sum.splits if_splits)
  from est assms(1,2) obtain s where
    loop: "for_loop [0..<10] (\<lambda>n. trial P K f max_M) (estimator_init P size1 size2 retval) = Inr s"
    by (auto simp: estimate_final_series_size_def Let_def q sq fits split: sum.splits)
  from est assms(1,2) obtain mean M where
    mean: "integer_div (ts_total s) 10 = Inr mean"
    and M: "integer_div (mean * mean * 4 * (ts_total s - ts_filtered s)) (ts_total s) = Inr M"
    and n: "integer_to_size P M = Inr n" and r': "r' = ts_retval s"
    by (auto simp: estimate_final_series_size_def Let_def q sq fits loop split: sum.splits)
  from trials_post[OF loop] have "0 \<le> ts_total s"
    by (simp add: estimator_init_def run_count_sum_nonneg)
  then have mean': "mean = ts_total s div 10"
    using mean by (simp add: integer_div_nonneg)
  from n have "M = int n"
    by (auto simp: integer_to_size_def split: if_splits)
  with M mean' have "integer_div (ts_total s div 10 * (ts_total s div 10) * 4
        * (ts_total s - ts_filtered s)) (ts_total s) = Inr (int n)" by simp
  moreover have "ts_total s \<noteq> 0" using M by (rule integer_div_Inr)
  ultimately show ?thesis using that b loop r' by blast
qed

lemma trials_bounds:
  assumes "for_loop ns (\<lambda>n. trial P K f max_M) (estimator_init P size1 size2 retval) = Inr s"
  shows "0 \<le> ts_filtered s \<and> ts_filtered s \<le> ts_total s"
proof -
  let ?runs = "trial_runs P K f max_M (length ns) (estimator_init P size1 size2 retval)"
  from trials_post[OF assms] have tot: "ts_total s = sum_list (map run_count ?runs)"
    and fil: "ts_filtered s = sum_list (map run_filtered ?runs)"
    by (simp_all add: estimator_init_def)
  have "sum_list (map run_filtered ?runs) \<le> sum_list (map run_count ?runs)"
    by (rule sum_list_mono) (use trial_runs_le in blast)
  with tot fil run_filtered_sum_nonneg[of ?runs] show ?thesis by simp
qed

lemma estimate_post:
  assumes "0 < size1" "0 < size2"
    and "estimate_final_series_size P K f size1 size2 retval = Inr (n, r')"
  shows "series_empty r' \<and> m_container r' = hs_empty \<and> m_symbol_set r' = m_symbol_set retval"
proof -
  from assms obtain max_M s where
    loop: "for_loop [0..<10] (\<lambda>n. trial P K f max_M) (estimator_init P size1 size2 retval) = Inr s"
    and r': "r' = ts_retval s"
    by (rule estimate_unfold)
  have "[0..<10::nat] \<noteq> []" by simp
  with trials_post[OF loop] have "m_container (ts_retval s) = hs_empty"
    and "m_symbol_set (ts_retval s) = m_symbol_set retval"
    by (simp_all add: estimator_init_def)
  then show ?thesis
    by (simp add: r' series_empty_def series_size_def hs_size_def hs_empty_def)
qed

text \<open>
  The converse: when the ten trials complete, the total is not zero and the numbers are
  sizes, the estimator returns the value of the formula; when the total is zero it raises
  the division error.
\<close>

lemma estimate_total:
  assumes "0 < size1" "0 < size2"
    and fits: "sqrt_search (size1 * size2 div 4) 0 \<le> size_max P"
    and loop: "for_loop [0..<10] (\<lambda>n. trial P K f (sqrt_search (size1 * size2 div 4) 0))
                 (estimator_init P size1 size2 retval) = Inr s"
    and nz: "ts_total s \<noteq> 0"
    and small: "ts_total s div 10 * (ts_total s div 10) * 4 * (ts_total s - ts_filtered s)
                  div ts_total s \<le> int (size_max P)"
  shows "estimate_final_series_size P K f size1 size2 retval
           = Inr (nat (ts_total s div 10 * (ts_total s div 10) * 4 * (ts_total s - ts_filtered s)
                       div ts_total s), ts_retval s)"
proof -
  have q: "integer_div (int size1 * int size2) 4 = Inr (int (size1 * size2 div 4))"
    by (subst integer_div_nonneg) (simp_all add: zdiv_int)
  have sq: "integer_sqrt (int (size1 * size2 div 4)) = int (sqrt_search (size1 * size2 div 4) 0)"
    by (simp add: integer_sqrt_def)
  have m: "integer_to_size P (int (sqrt_search (size1 * size2 div 4) 0))
             = Inr (sqrt_search (size1 * size2 div 4) 0)"
    using fits by (simp add: integer_to_size_def)
  from trials_bounds[OF loop] trials_post[OF loop]
  have b: "0 \<le> ts_filtered s" "ts_filtered s \<le> ts_total s" by simp_all
  with nz have pos: "0 < ts_total s" by simp
  have mean: "integer_div (ts_total s) 10 = Inr (ts_total s div 10)"
    using pos by (simp add: integer_div_nonneg)
  have num: "0 \<le> ts_total s div 10 * (ts_total s div 10) * 4 * (ts_total s - ts_filtered s)"
    using b pos by simp
  have M: "integer_div (ts_total s div 10 * (ts_total s div 10) * 4 * (ts_total s - ts_filtered s))
             (ts_total s)
           = Inr (ts_total s div 10 * (ts_total s div 10) * 4 * (ts_total s - ts_filtered s)
                  div ts_total s)"
    by (rule integer_div_nonneg[OF num pos])
  have nonneg: "0 \<le> ts_total s div 10 * (ts_total s div 10) * 4 * (ts_total s - ts_filtered s)
                  div ts_total s"
    using num pos by (simp add: pos_imp_zdiv_nonneg_iff)
  have n: "integer_to_size P (ts_total s div 10 * (ts_total s div 10) * 4
                               * (ts_total s - ts_filtered s) div ts_total s)
             = Inr (nat (ts_total s div 10 * (ts_total s div 10) * 4
                         * (ts_total s - ts_filtered s) div ts_total s))"
    using small nonneg by (simp add: integer_to_size_def)
  show ?thesis
    using assms(1,2)
    by (simp add: estimate_final_series_size_def Let_def q sq m loop mean M n)
qed










text \<open>
  Claim C10.  The estimator is called with a fresh series as its scratch accumulator
  (\<^verbatim>\<open>execute\<close> and its workers build one for every call).  When the scratch series is
  empty on entry, or when both operands are non-empty whatever the series holds on entry,
  a normal return of the estimator leaves the scratch series empty, with the symbol set
  it had; after the trials its container is in the cleared state.
\<close>

theorem estimate_leaves_scratch_empty:
  assumes "series_empty retval \<or> (0 < size1 \<and> 0 < size2)"
    and est: "estimate_final_series_size P K f size1 size2 retval = Inr (n, r')"
  shows "series_empty r' \<and> m_symbol_set r' = m_symbol_set retval
     \<and> (0 < size1 \<and> 0 < size2 \<longrightarrow> m_container r' = hs_empty)"
proof (cases "0 < size1 \<and> 0 < size2")
  case True
  with estimate_post[OF _ _ est] show ?thesis by simp
next
  case False
  with est have "r' = retval" by (auto simp: estimate_final_series_size_def)
  with False assms(1) show ?thesis by auto
qed

theorem estimate_leaves_scratch_empty_witness:
  "(0::nat) < 4 \<and> \<not> series_empty ex_series
   \<and> estimate_final_series_size ex_platform ex_collab2
       (ex_functor_of [0, 1, 2, 3] [0, 4, 8, 12]) 4 4 ex_series = Inr (4, series_default)
   \<and> series_empty (series_default :: nat series)
   \<and> m_symbol_set (series_default :: nat series) = m_symbol_set ex_series
   \<and> m_container (series_default :: nat series) = hs_empty
   \<and> estimate_final_series_size ex_platform ex_collab2
       (ex_functor_of [] [0, 4, 8, 12]) 0 4 series_default = Inr (0, series_default)"
proof -
  have ne: "\<not> series_empty ex_series"
    by (simp add: series_empty_def series_size_def hs_size_def ex_series_def)
  have early: "estimate_final_series_size ex_platform ex_collab2
       (ex_functor_of [] [0, 4, 8, 12]) 0 4 series_default = Inr (0, series_default)"
    by (simp add: estimate_final_series_size_def)
  have e: "series_empty (series_default :: nat series)"
    by (simp add: series_empty_def series_size_def hs_size_def series_default_def hs_empty_def)
  from estimate_leaves_scratch_empty[OF _ ex_estimate_4]
    estimate_leaves_scratch_empty[OF _ early] ex_estimate_4 ne early e
  show ?thesis by simp
qed

subsection \<open>The estimate does not depend on the thread that asks for it\<close>





subsection \<open>Pre-sizing\<close>

lemma rehasher_above_min_work:
  assumes "100000 \<le> s1 * s2"
  shows "rehasher P K f r s1 s2 = presize P K f r s1 s2"
proof -
  from assms have s2: "s2 \<noteq> 0" by (cases s2) simp_all
  have "100000 div s2 \<le> s1 * s2 div s2" using assms by (rule div_le_mono)
  with s2 have "100000 div s2 \<le> s1" by simp
  with s2 show ?thesis by (simp add: rehasher_def)
qed

lemma rehasher_skips:
  "s2 = 0 \<or> s1 < 100000 div s2 \<Longrightarrow> rehasher P K f r s1 s2 = ((False, 0), r)"
  by (auto simp: rehasher_def)

text \<open>
  Claim C4.  The claim puts the threshold of the estimation at 100000 term-by-term
  products, as the comment in \<^verbatim>\<open>rehasher\<close> does.  The test in the code compares the first
  size with the rounded-down quotient of 100000 by the second: with 33333 and 3 terms
  there are 99999 products and the estimation block runs all the same.
\<close>

theorem rehasher_estimates_below_min_work:
  "(33333::nat) * 3 < 100000 \<and> rehasher P K f r 33333 3 = presize P K f r 33333 3"
  by (simp add: rehasher_def)

subsection \<open>The target of the merge\<close>







subsection \<open>Failure of the final merge\<close>

lemma clear_container_container: "m_container (clear_container x) = hs_empty"
  by (simp add: clear_container_def hs_clear_def)

lemma clear_container_empty: "series_empty (clear_container x)"
  by (simp add: clear_container_def hs_clear_def series_empty_def series_size_def hs_size_def
        hs_empty_def)

lemma final_merge_raises:
  assumes "merge_exceptions P K retval retval_list n_threads \<noteq> []"
  shows "fst (final_merge P K retval retval_list n_threads)
           = Some (hd (merge_exceptions P K retval retval_list n_threads))"
proof (cases "captured P 1 (index_results K retval retval_list) \<noteq> []")
  case True
  then show ?thesis by (simp add: final_merge_def merge_exceptions_def Let_def)
next
  case False
  with assms have "captured P 2 (snd (merge_results K retval retval_list n_threads)) \<noteq> []"
    by (simp add: merge_exceptions_def)
  with False show ?thesis
    by (cases "merge_results K retval retval_list n_threads")
       (simp add: final_merge_def merge_exceptions_def Let_def)
qed

text \<open>
  Claim C6.  If a worker of the final merge raises an exception, the exception that
  leaves the guarded block of \<^verbatim>\<open>execute\<close> is the first one in the vector of captured
  exceptions; at that moment the target series has been cleared, and so has every source
  series of the list; and the multiplication ends with that exception, returning no
  series.
\<close>

theorem merge_failure_clears_everything:
  assumes "merge_exceptions P K retval retval_list n_threads \<noteq> []"
  shows "fst (merge_guarded P K retval retval_list n_threads)
           = Some (hd (merge_exceptions P K retval retval_list n_threads))
       \<and> m_container (fst (snd (merge_guarded P K retval retval_list n_threads))) = hs_empty
       \<and> series_empty (fst (snd (merge_guarded P K retval retval_list n_threads)))
       \<and> length (snd (snd (merge_guarded P K retval retval_list n_threads))) = length retval_list
       \<and> (\<forall>r\<in>set (snd (snd (merge_guarded P K retval retval_list n_threads))).
             m_container r = hs_empty \<and> series_empty r)
       \<and> merge_and_return P K retval retval_list n_threads
           = Inl (hd (merge_exceptions P K retval retval_list n_threads))"
proof -
  obtain rv where fm: "final_merge P K retval retval_list n_threads
      = (Some (hd (merge_exceptions P K retval retval_list n_threads)), rv)"
    using final_merge_raises[OF assms]
    by (cases "final_merge P K retval retval_list n_threads") simp
  show ?thesis
    by (auto simp: merge_guarded_def merge_and_return_def fm cleanup_def
          clear_container_container clear_container_empty)
qed

theorem merge_failure_clears_everything_witness:
  "merge_exceptions ex_late_first ex_failing series_default
      [ex_series_of [5], ex_series_of [7]] 2 = [Foreign 7, Foreign 5]
   \<and> merge_guarded ex_late_first ex_failing series_default [ex_series_of [5], ex_series_of [7]] 2
       = (Some (Foreign 7), series_default, [series_default, series_default])
   \<and> merge_and_return ex_late_first ex_failing series_default
        [ex_series_of [5], ex_series_of [7]] 2 = Inl (Foreign 7)"
proof -
  have ex: "merge_exceptions ex_late_first ex_failing series_default
      [ex_series_of [5], ex_series_of [7]] 2 = [Foreign 7, Foreign 5]"
    by (simp add: merge_exceptions_def captured_def index_results_def index_worker_def
          ex_failing_def ex_late_first_def ex_platform_def ex_series_of_def std_sort_def)
  then have ne: "merge_exceptions ex_late_first ex_failing series_default
      [ex_series_of [5], ex_series_of [7]] 2 \<noteq> []" by simp
  have g: "merge_guarded ex_late_first ex_failing series_default
      [ex_series_of [5], ex_series_of [7]] 2
       = (Some (Foreign 7), series_default, [series_default, series_default])"
    by (simp add: merge_guarded_def final_merge_def captured_def index_results_def
          index_worker_def ex_failing_def ex_late_first_def ex_platform_def ex_series_of_def
          std_sort_def cleanup_def clear_container_def hs_clear_def series_default_def Let_def)
  from merge_failure_clears_everything[OF ne] ex g show ?thesis by simp
qed

subsection \<open>The driver\<close>

text \<open>
  Claim C7.  For two series with equal symbol sets of which at least one is empty, the
  multiplication returns the default-constructed series.  It does so for every
  platform, every behaviour of the collaborators and either activity flag: no functor is
  built and neither the estimator, the tiler nor the merge takes part.
\<close>

theorem multiply_empty_operand:
  assumes "m_symbol_set s1 = m_symbol_set s2" "series_empty s1 \<or> series_empty s2"
  shows "multiply P K s1 s2 trunc = Inr series_default
       \<and> (\<forall>m act. make_multiplier s1 s2 = Inr m \<longrightarrow> execute P K act m trunc = Inr series_default)"
  using assms
  by (auto simp: multiply_def make_multiplier_def call_operator_def execute_def)

theorem multiply_empty_operand_witness:
  "m_symbol_set (series_default :: nat series) = m_symbol_set ex_series
   \<and> series_empty (series_default :: nat series)
   \<and> multiply ex_platform ex_collab series_default ex_series ex_trunc = Inr series_default"
proof -
  have a: "m_symbol_set (series_default :: nat series) = m_symbol_set ex_series"
    by (simp add: series_default_def ex_series_def)
  have b: "series_empty (series_default :: nat series)"
    by (simp add: series_empty_def series_size_def hs_size_def series_default_def hs_empty_def)
  from multiply_empty_operand[OF a disjI1[OF b], of ex_platform ex_collab ex_trunc] a b
  show ?thesis by simp
qed

text \<open>
  Claim C8.  Constructing the functor with an \<^verbatim>\<open>IsActive\<close> flag that differs from
  \<^verbatim>\<open>is_active()\<close> of the truncator throws \<^verbatim>\<open>std::invalid_argument\<close>, and both paths
  of \<^verbatim>\<open>execute\<close> end with that exception whatever the term multiplication and the series
  insertion would do, since neither is reached.
\<close>

theorem functor_flag_mismatch:
  assumes "act \<noteq> is_active trunc"
  shows "make_functor act ptr1 ptr2 trunc
           = Inl (InvalidArgument ''inconsistent activity flags for truncator'')
       \<and> execute_single P K act m trunc size1 size2
           = Inl (InvalidArgument ''inconsistent activity flags for truncator'')
       \<and> execute_multi P K act m trunc size1 size2 n_threads
           = Inl (InvalidArgument ''inconsistent activity flags for truncator'')"
proof -
  have mf: "make_functor act p1 p2 trunc
      = Inl (InvalidArgument ''inconsistent activity flags for truncator'')" for p1 p2 :: "'a list"
    using assms by (simp add: make_functor_def)
  have bf: "build_functors act trunc bs v2
      = (if bs = [] then Inr ([], v2)
         else Inl (InvalidArgument ''inconsistent activity flags for truncator''))"
    for bs and v2 :: "'a list"
    by (cases bs) (simp_all add: mf)
  have multi: "execute_multi P K act m trunc size1 size2 n_threads
      = Inl (InvalidArgument ''inconsistent activity flags for truncator'')"
  proof (cases "n_threads = 0")
    case True
    then show ?thesis
      by (simp add: execute_multi_def bf mf captured_def std_sort_def)
  next
    case False
    then show ?thesis by (simp add: execute_multi_def bf)
  qed
  show ?thesis using mf multi by (simp add: execute_single_def)
qed

theorem functor_flag_mismatch_witness:
  "False \<noteq> is_active ex_trunc
   \<and> make_functor False [2, 0, 1] [1, 2, 0] ex_trunc
       = Inl (InvalidArgument ''inconsistent activity flags for truncator'')
   \<and> execute_single ex_platform ex_collab False ex_multiplier ex_trunc 2 3
       = Inl (InvalidArgument ''inconsistent activity flags for truncator'')
   \<and> execute_multi ex_platform ex_collab False ex_multiplier ex_trunc 2 3 2
       = Inl (InvalidArgument ''inconsistent activity flags for truncator'')"
proof -
  have a: "False \<noteq> is_active ex_trunc" by (simp add: ex_trunc_def)
  from functor_flag_mismatch[OF a] a show ?thesis by simp
qed

lemma thread_heuristic_spec:
  assumes "1 \<le> settings_n_threads P" "settings_n_threads P \<le> size_max P"
  shows "thread_heuristic P size1 size2
           = Inr (spec_n_threads (settings_n_threads P) size1 size2)"
proof -
  let ?c = "settings_n_threads P" and ?w = "size1 * size2"
  have d1: "integer_div (int size1 * int size2) (int ?c) = Inr (int (?w div ?c))"
    using assms(1) by (subst integer_div_nonneg) (simp_all add: zdiv_int)
  have d2: "integer_div (int size1 * int size2) 100000 = Inr (int (?w div 100000))"
    by (subst integer_div_nonneg) (simp_all add: zdiv_int)
  show ?thesis
  proof (cases "?c = 1")
    case True
    have "?w div 100000 = 0 \<or> 100000 \<le> ?w" by (cases "?w < 100000") simp_all
    then show ?thesis
      using True by (auto simp: thread_heuristic_def spec_n_threads_def Let_def min_def)
  next
    case False
    show ?thesis
    proof (cases "100000 \<le> ?w div ?c")
      case True
      with False show ?thesis
        by (simp add: thread_heuristic_def spec_n_threads_def Let_def d1 min_def)
    next
      case small: False
      then have "?w div ?c < 100000" by simp
      then have "?w < 100000 * ?c"
        using assms(1) by (simp add: div_less_iff_less_mult mult.commute)
      then have "?w div 100000 < ?c"
        by (simp add: div_less_iff_less_mult mult.commute)
      then have fits: "max 1 (?w div 100000) \<le> size_max P"
        using assms by simp
      have "integer_to_size P (max 1 (int (?w div 100000))) = Inr (max 1 (?w div 100000))"
        using fits assms by (auto simp: integer_to_size_def max_def split: if_splits)
      with False small show ?thesis
        by (simp add: thread_heuristic_def spec_n_threads_def Let_def d1 d2 min_def)
    qed
  qed
qed

text \<open>
  Claim C2.  For non-empty operands of sizes \<open>n1\<close> and \<open>n2\<close> and a configured maximum of
  at least one thread, the number of threads of \<^verbatim>\<open>execute\<close> is the configured maximum when
  \<open>n1 * n2\<close> divided by it is at least 100000, and \<open>max 1 (n1 * n2 div 100000)\<close>
  otherwise, clamped to at most \<open>n1\<close>; \<^verbatim>\<open>execute\<close> takes the single-threaded path when this
  number is 1 or the calling thread is not the main thread, and otherwise runs that
  number of workers.
\<close>

theorem execute_thread_count:
  assumes "1 \<le> settings_n_threads P" "settings_n_threads P \<le> size_max P"
    and "\<not> series_empty (sm_s1 m)" "\<not> series_empty (sm_s2 m)" "m_v1 m \<noteq> []" "m_v2 m \<noteq> []"
  shows "thread_heuristic P (length (m_v1 m)) (length (m_v2 m))
           = Inr (spec_n_threads (settings_n_threads P) (length (m_v1 m)) (length (m_v2 m)))
       \<and> execute P K act m trunc
           = (if spec_n_threads (settings_n_threads P) (length (m_v1 m)) (length (m_v2 m)) = 1
                 \<or> main_thread_id P \<noteq> this_thread_id P
              then execute_single P K act m trunc (length (m_v1 m)) (length (m_v2 m))
              else execute_multi P K act m trunc (length (m_v1 m)) (length (m_v2 m))
                     (spec_n_threads (settings_n_threads P) (length (m_v1 m)) (length (m_v2 m))))"
  using assms(3-6) thread_heuristic_spec[OF assms(1,2)]
  by (simp add: execute_def Let_def)

theorem execute_thread_count_witness:
  "1 \<le> settings_n_threads ex_two_threads
   \<and> settings_n_threads ex_two_threads \<le> size_max ex_two_threads
   \<and> \<not> series_empty (sm_s1 ex_big_multiplier) \<and> \<not> series_empty (sm_s2 ex_big_multiplier)
   \<and> m_v1 ex_big_multiplier \<noteq> [] \<and> m_v2 ex_big_multiplier \<noteq> []
   \<and> thread_heuristic ex_two_threads 1000 200 = Inr 2
   \<and> execute ex_two_threads ex_collab True ex_big_multiplier ex_trunc
       = execute_multi ex_two_threads ex_collab True ex_big_multiplier ex_trunc 1000 200 2"
proof -
  have c: "1 \<le> settings_n_threads ex_two_threads"
    "settings_n_threads ex_two_threads \<le> size_max ex_two_threads"
    by (simp_all add: ex_two_threads_def ex_platform_def)
  have e: "\<not> series_empty (sm_s1 ex_big_multiplier)" "\<not> series_empty (sm_s2 ex_big_multiplier)"
    by (simp_all add: ex_big_multiplier_def series_empty_def series_size_def hs_size_def)
  have v: "m_v1 ex_big_multiplier \<noteq> []" "m_v2 ex_big_multiplier \<noteq> []"
    by (simp_all add: ex_big_multiplier_def)
  have l: "length (m_v1 ex_big_multiplier) = 1000" "length (m_v2 ex_big_multiplier) = 200"
    by (simp_all add: ex_big_multiplier_def)
  have n: "spec_n_threads (settings_n_threads ex_two_threads) 1000 200 = 2"
    by (simp add: spec_n_threads_def ex_two_threads_def ex_platform_def)
  have t: "main_thread_id ex_two_threads = this_thread_id ex_two_threads"
    by (simp add: ex_two_threads_def ex_platform_def)
  from execute_thread_count[OF c e v, of ex_collab True ex_trunc] c e v
  show ?thesis by (simp add: l n t)
qed

end
